theory Spec2Isabelle
  imports Main
begin

section \<open>Identifiers and time\<close>

text \<open>
  An ObjectId is twelve bytes; \<^verbatim>\<open>toString()\<close> renders it as 24 hexadecimal digits.
  The rendering is injective and never empty, so the source's comparisons
  \<^verbatim>\<open>a.toString() === b.toString()\<close> are equality of identifiers, and an identifier
  stored in \<^verbatim>\<open>socket.userId\<close> is truthy. Dates are points on a discrete clock.
\<close>

type_synonym objectId = nat
type_synonym date = nat

section \<open>Saving a document\<close>

text \<open>
  A model method either ends in \<^verbatim>\<open>return this.save()\<close> or returns the document
  without writing it. The result of a method is the document together with a flag that
  tells whether \<^verbatim>\<open>save()\<close> was called. The bookkeeping fields that the library
  maintains on its own (\<^verbatim>\<open>_id\<close> of subdocuments, \<^verbatim>\<open>updatedAt\<close>) are not part of
  the model.
\<close>

definition save :: "'a \<Rightarrow> 'a \<times> bool" where
  "save this = (this, True)"

definition unsaved :: "'a \<Rightarrow> 'a \<times> bool" where
  "unsaved this = (this, False)"

section \<open>Array helpers of the host language\<close>

text \<open>\<^verbatim>\<open>Array.prototype.findIndex\<close>: the index of the first element that satisfies the
  predicate; the source's \<^verbatim>\<open>-1\<close> is \<open>None\<close>.\<close>

fun findIndex :: "('a \<Rightarrow> bool) \<Rightarrow> 'a list \<Rightarrow> nat option" where
  "findIndex P [] = None"
| "findIndex P (x # xs) = (if P x then Some 0 else map_option Suc (findIndex P xs))"

text \<open>\<^verbatim>\<open>Array.prototype.some\<close>.\<close>

definition some :: "('a \<Rightarrow> bool) \<Rightarrow> 'a list \<Rightarrow> bool" where
  "some P xs = list_ex P xs"

section \<open>The chat document (models/Chat.js)\<close>

datatype chat_type = Direct | Group

record unread_entry =
  uc_user :: objectId
  uc_count :: int

record last_message =
  lm_id :: "objectId option"
  lm_text :: "string option"
  lm_sender :: "objectId option"
  lm_timestamp :: date
  lm_isRead :: bool

record chat =
  c_type :: chat_type
  c_name :: "string option"
  participants :: "objectId list"
  admins :: "objectId list"
  lastMessage :: last_message
  unreadCounts :: "unread_entry list"
  isActive :: bool
  deletedBy :: "objectId list"
  pinnedMessages :: "objectId list"
  allowInvites :: bool
  readReceipts :: bool

text \<open>The virtual \<^verbatim>\<open>getUnreadCount\<close>: the count of the first entry of the user, or 0.\<close>

definition getUnreadCount :: "chat \<Rightarrow> objectId \<Rightarrow> int" where
  "getUnreadCount this userId =
     (case find (\<lambda>item. uc_user item = userId) (unreadCounts this) of
        Some unreadData \<Rightarrow> uc_count unreadData
      | None \<Rightarrow> 0)"

definition updateUnreadCount :: "chat \<Rightarrow> objectId \<Rightarrow> bool \<Rightarrow> chat \<times> bool" where
  "updateUnreadCount this userId increment =
     (case findIndex (\<lambda>item. uc_user item = userId) (unreadCounts this) of
        Some unreadIndex \<Rightarrow>
          (let item = unreadCounts this ! unreadIndex;
               c = uc_count item + (if increment then 1 else - 1);
               c' = (if c < 0 then 0 else c)
           in save (this\<lparr>unreadCounts :=
                      (unreadCounts this)[unreadIndex := item\<lparr>uc_count := c'\<rparr>]\<rparr>))
      | None \<Rightarrow>
          (if increment
           then save (this\<lparr>unreadCounts :=
                        unreadCounts this @ [\<lparr>uc_user = userId, uc_count = 1\<rparr>]\<rparr>)
           else save this))"

definition markAsRead :: "chat \<Rightarrow> objectId \<Rightarrow> chat \<times> bool" where
  "markAsRead this userId =
     (case findIndex (\<lambda>item. uc_user item = userId) (unreadCounts this) of
        Some unreadIndex \<Rightarrow>
          save (this\<lparr>unreadCounts :=
                  (unreadCounts this)[unreadIndex :=
                     (unreadCounts this ! unreadIndex)\<lparr>uc_count := 0\<rparr>]\<rparr>)
      | None \<Rightarrow> unsaved this)"

definition deleteForUser :: "chat \<Rightarrow> objectId \<Rightarrow> chat \<times> bool" where
  "deleteForUser this userId =
     (let isAlreadyDeleted = some (\<lambda>i. i = userId) (deletedBy this)
      in if \<not> isAlreadyDeleted
         then save (this\<lparr>deletedBy := deletedBy this @ [userId]\<rparr>)
         else unsaved this)"

definition restoreForUser :: "chat \<Rightarrow> objectId \<Rightarrow> chat \<times> bool" where
  "restoreForUser this userId =
     (let wasDeleted = some (\<lambda>i. i = userId) (deletedBy this)
      in if wasDeleted
         then save (this\<lparr>deletedBy := filter (\<lambda>i. i \<noteq> userId) (deletedBy this)\<rparr>)
         else unsaved this)"

definition isDeletedForUser :: "chat \<Rightarrow> objectId \<Rightarrow> bool" where
  "isDeletedForUser this userId =
     (if deletedBy this = [] then False
      else some (\<lambda>i. i = userId) (deletedBy this))"

text \<open>The invariant of the unread counters, as the data model words it: at most one
  entry per user, and no negative count.\<close>

definition unread_inv :: "chat \<Rightarrow> bool" where
  "unread_inv c \<longleftrightarrow>
     distinct (map uc_user (unreadCounts c)) \<and> list_all (\<lambda>e. 0 \<le> uc_count e) (unreadCounts c)"

text \<open>The operations that change unread counters, and a sequence of them on one chat.\<close>

datatype unread_op = Update_unread objectId bool | Mark_read objectId

fun apply_unread_op :: "chat \<Rightarrow> unread_op \<Rightarrow> chat" where
  "apply_unread_op c (Update_unread u increment) = fst (updateUnreadCount c u increment)"
| "apply_unread_op c (Mark_read u) = fst (markAsRead c u)"

text \<open>The entries of the counters list that belong to one user.\<close>

definition entries_of :: "chat \<Rightarrow> objectId \<Rightarrow> unread_entry list" where
  "entries_of c u = filter (\<lambda>item. uc_user item = u) (unreadCounts c)"

section \<open>The message document (message model)\<close>

datatype message_type = Text | Image | Voice | File | System

record read_receipt =
  rb_user :: objectId
  rb_readAt :: date

record reaction =
  r_user :: objectId
  r_emoji :: string
  r_createdAt :: date

text \<open>\<open>isNew\<close> is the library's flag of a document that was never saved.\<close>

record message =
  m_id :: objectId
  m_chat :: objectId
  m_sender :: objectId
  m_type :: message_type
  content_text :: "string option"
  replyTo :: "objectId option"
  readBy :: "read_receipt list"
  reactions :: "reaction list"
  isEdited :: bool
  editedAt :: "date option"
  isDeleted :: bool
  deletedAt :: "date option"
  isPinned :: bool
  createdAt :: date
  isNew :: bool

text \<open>\<^verbatim>\<open>addReaction\<close>; \<open>now\<close> is the default \<^verbatim>\<open>createdAt\<close> of the pushed reaction.\<close>

definition addReaction :: "message \<Rightarrow> objectId \<Rightarrow> string \<Rightarrow> date \<Rightarrow> message \<times> bool" where
  "addReaction this userId emoji now =
     (let existingReaction =
            find (\<lambda>reaction. r_user reaction = userId \<and> r_emoji reaction = emoji)
              (reactions this)
      in if existingReaction \<noteq> None
         then save (this\<lparr>reactions :=
                filter (\<lambda>reaction. \<not> (r_user reaction = userId \<and> r_emoji reaction = emoji))
                  (reactions this)\<rparr>)
         else save (this\<lparr>reactions :=
                filter (\<lambda>reaction. r_user reaction \<noteq> userId) (reactions this)
                  @ [\<lparr>r_user = userId, r_emoji = emoji, r_createdAt = now\<rparr>]\<rparr>))"

definition softDelete :: "message \<Rightarrow> date \<Rightarrow> message \<times> bool" where
  "softDelete this now = save (this\<lparr>isDeleted := True, deletedAt := Some now\<rparr>)"

definition editMessage :: "message \<Rightarrow> string \<Rightarrow> date \<Rightarrow> message \<times> bool" where
  "editMessage this newText now =
     save (this\<lparr>content_text := Some newText, isEdited := True, editedAt := Some now\<rparr>)"

text \<open>The reactions that one participant holds on a message, and the data model's bound
  on them.\<close>

definition reactions_by :: "objectId \<Rightarrow> message \<Rightarrow> reaction list" where
  "reactions_by u m = filter (\<lambda>reaction. r_user reaction = u) (reactions m)"

definition one_reaction_each :: "message \<Rightarrow> bool" where
  "one_reaction_each m \<longleftrightarrow> distinct (map r_user (reactions m))"

text \<open>A run of \<^verbatim>\<open>addReaction\<close> calls on one message, each with its user, emoji and time.\<close>

fun addReactions :: "message \<Rightarrow> (objectId \<times> string \<times> date) list \<Rightarrow> message" where
  "addReactions m [] = m"
| "addReactions m ((u, e, now) # calls) = addReactions (fst (addReaction m u e now)) calls"

section \<open>The persistence layer\<close>

datatype status = Online | Offline | Away

record user =
  u_status :: status
  u_lastSeen :: date

text \<open>The collections. Messages are kept in insertion order, which is creation order.\<close>

record db =
  db_users :: "objectId \<rightharpoonup> user"
  db_chats :: "objectId \<rightharpoonup> chat"
  db_messages :: "message list"

text \<open>\<^verbatim>\<open>User.findByIdAndUpdate(id, {status, lastSeen})\<close>: nothing happens for an unknown id.\<close>

definition User_findByIdAndUpdate :: "db \<Rightarrow> objectId \<Rightarrow> status \<Rightarrow> date \<Rightarrow> db" where
  "User_findByIdAndUpdate d uid st now =
     (case db_users d uid of
        None \<Rightarrow> d
      | Some u \<Rightarrow> d\<lparr>db_users := (db_users d)(uid \<mapsto> u\<lparr>u_status := st, u_lastSeen := now\<rparr>)\<rparr>)"

text \<open>The write of a chat document whose method called \<^verbatim>\<open>save()\<close>.\<close>

definition Chat_persist :: "db \<Rightarrow> objectId \<Rightarrow> chat \<times> bool \<Rightarrow> db" where
  "Chat_persist d cid r =
     (if snd r then d\<lparr>db_chats := (db_chats d)(cid \<mapsto> fst r)\<rparr> else d)"

text \<open>The pre-save middleware of the message schema: a new message that is not deleted
  becomes the last message of its chat (\<^verbatim>\<open>Chat.findByIdAndUpdate\<close>, which does
  nothing for an unknown chat). \<open>summary_of\<close> is the update it writes: the five fields
  of \<^verbatim>\<open>lastMessage\<close>, with \<^verbatim>\<open>content.text || ''\<close> as the text.\<close>

definition summary_of :: "message \<Rightarrow> last_message" where
  "summary_of this =
     \<lparr> lm_id = Some (m_id this),
       lm_text = Some (case content_text this of Some t \<Rightarrow> t | None \<Rightarrow> []),
       lm_sender = Some (m_sender this),
       lm_timestamp = createdAt this,
       lm_isRead = False \<rparr>"

definition pre_save :: "db \<Rightarrow> message \<Rightarrow> db" where
  "pre_save d this =
     (if isNew this \<and> \<not> isDeleted this
      then (case db_chats d (m_chat this) of
              None \<Rightarrow> d
            | Some c \<Rightarrow>
                d\<lparr>db_chats := (db_chats d)(m_chat this \<mapsto> c\<lparr>lastMessage := summary_of this\<rparr>)\<rparr>)
      else d)"

text \<open>\<^verbatim>\<open>save()\<close> of a message: the middleware runs, then the document is inserted (when
  new) or replaces the stored one.\<close>

definition Message_persist :: "db \<Rightarrow> message \<times> bool \<Rightarrow> db" where
  "Message_persist d r =
     (if snd r
      then (let d' = pre_save d (fst r); stored = (fst r)\<lparr>isNew := False\<rparr>
            in d'\<lparr>db_messages :=
                 (if isNew (fst r) then db_messages d' @ [stored]
                  else map (\<lambda>m. if m_id m = m_id stored then stored else m) (db_messages d'))\<rparr>)
      else d)"

text \<open>\<^verbatim>\<open>Message.findById\<close>: a loaded document is not new.\<close>

definition Message_findById :: "db \<Rightarrow> objectId \<Rightarrow> message option" where
  "Message_findById d mid =
     map_option (\<lambda>m. m\<lparr>isNew := False\<rparr>) (find (\<lambda>m. m_id m = mid) (db_messages d))"

text \<open>Message creations and soft-deletes, and a sequence of them.\<close>

datatype message_op = Create message | Soft_delete objectId date

fun exec :: "db \<Rightarrow> message_op \<Rightarrow> db" where
  "exec d (Create m) = Message_persist d (save (m\<lparr>isNew := True\<rparr>))"
| "exec d (Soft_delete mid now) =
     (case Message_findById d mid of
        None \<Rightarrow> d
      | Some m \<Rightarrow> Message_persist d (softDelete m now))"

definition exec_all :: "db \<Rightarrow> message_op list \<Rightarrow> db" where
  "exec_all d ops = foldl exec d ops"

text \<open>The specification's wording of the summary: the most recently created message
  of the chat that is not deleted.\<close>

definition latest_live_message :: "db \<Rightarrow> objectId \<Rightarrow> objectId option" where
  "latest_live_message d cid =
     (case filter (\<lambda>m. m_chat m = cid \<and> \<not> isDeleted m) (db_messages d) of
        [] \<Rightarrow> None
      | ms \<Rightarrow> Some (m_id (last ms)))"

text \<open>What the middleware maintains: the most recent creation, in a sequence of
  operations, of a message of the chat that was not deleted when it was created.\<close>

fun created_live :: "objectId \<Rightarrow> message_op list \<Rightarrow> message list" where
  "created_live cid [] = []"
| "created_live cid (Create m # ops) =
     (if m_chat m = cid \<and> \<not> isDeleted m then m # created_live cid ops
      else created_live cid ops)"
| "created_live cid (Soft_delete mid now # ops) = created_live cid ops"

section \<open>The socket server\<close>

type_synonym socketId = nat

datatype room = Chat_room objectId | User_room objectId

datatype server_event =
    New_message objectId string
  | User_typing objectId "objectId option" bool
  | User_status_change objectId status

datatype client_event =
    Connection
  | Authenticate string
  | Join_chat objectId
  | Leave_chat objectId
  | Send_message "(objectId \<times> string) option"
  | Typing_start objectId
  | Typing_stop objectId
  | Disconnect

text \<open>A connection session. \<open>userId\<close> is unset until an authentication succeeds.\<close>

record socket =
  s_id :: socketId
  userId :: "objectId option"
  s_user :: "user option"
  rooms :: "room set"

text \<open>An event that the server hands to one session; \<open>origin\<close> is the session whose
  handler emitted it.\<close>

record delivery =
  origin :: socketId
  recipient :: socketId
  payload :: server_event

record server =
  sockets :: "socket list"
  connectedUsers :: "objectId \<rightharpoonup> socketId"
  connectionCount :: int
  store :: db
  outbox :: "delivery list"

text \<open>Sending to every connected session but the emitting one that satisfies \<open>P\<close>:
  \<^verbatim>\<open>socket.broadcast.emit\<close> reaches all of them, \<^verbatim>\<open>socket.to(room).emit\<close> those that
  joined the room.\<close>

definition emit_to :: "server \<Rightarrow> socketId \<Rightarrow> (socket \<Rightarrow> bool) \<Rightarrow> server_event \<Rightarrow> server" where
  "emit_to srv sid P ev =
     srv\<lparr>outbox := outbox srv @
        map (\<lambda>r. \<lparr>origin = sid, recipient = s_id r, payload = ev\<rparr>)
          (filter (\<lambda>r. s_id r \<noteq> sid \<and> P r) (sockets srv))\<rparr>"

definition broadcast_emit :: "server \<Rightarrow> socketId \<Rightarrow> server_event \<Rightarrow> server" where
  "broadcast_emit srv sid ev = emit_to srv sid (\<lambda>r. True) ev"

definition to_room_emit :: "server \<Rightarrow> socketId \<Rightarrow> room \<Rightarrow> server_event \<Rightarrow> server" where
  "to_room_emit srv sid room ev = emit_to srv sid (\<lambda>r. room \<in> rooms r) ev"

definition update_socket :: "server \<Rightarrow> socketId \<Rightarrow> (socket \<Rightarrow> socket) \<Rightarrow> server" where
  "update_socket srv sid f =
     srv\<lparr>sockets := map (\<lambda>r. if s_id r = sid then f r else r) (sockets srv)\<rparr>"

definition on_connection :: "server \<Rightarrow> socketId \<Rightarrow> server" where
  "on_connection srv sid =
     srv\<lparr>sockets := sockets srv @ [\<lparr>s_id = sid, userId = None, s_user = None, rooms = {}\<rparr>],
         connectionCount := connectionCount srv + 1\<rparr>"

text \<open>The \<^verbatim>\<open>authenticate\<close> handler. \<open>jwt_verify\<close> stands for \<^verbatim>\<open>jwt.verify\<close> with the
  server's secret: the user id of the token, or \<open>None\<close> where it throws (the handler
  catches it and does nothing).\<close>

definition on_authenticate ::
  "(string \<Rightarrow> objectId option) \<Rightarrow> date \<Rightarrow> server \<Rightarrow> socketId \<Rightarrow> string \<Rightarrow> server" where
  "on_authenticate jwt_verify now srv sid token =
     (case jwt_verify token of
        None \<Rightarrow> srv
      | Some decoded \<Rightarrow>
          (case db_users (store srv) decoded of
             None \<Rightarrow> srv
           | Some u \<Rightarrow>
               (let srv1 = update_socket srv sid (\<lambda>r. r\<lparr>userId := Some decoded, s_user := Some u\<rparr>);
                    srv2 = srv1\<lparr>connectedUsers := (connectedUsers srv1)(decoded \<mapsto> sid)\<rparr>;
                    srv3 = srv2\<lparr>store := User_findByIdAndUpdate (store srv2) decoded Online now\<rparr>;
                    srv4 = update_socket srv3 sid (\<lambda>r. r\<lparr>rooms := insert (User_room decoded) (rooms r)\<rparr>)
                in broadcast_emit srv4 sid (User_status_change decoded Online))))"

definition on_join_chat :: "server \<Rightarrow> socketId \<Rightarrow> objectId \<Rightarrow> server" where
  "on_join_chat srv sid chatId =
     update_socket srv sid (\<lambda>r. r\<lparr>rooms := insert (Chat_room chatId) (rooms r)\<rparr>)"

definition on_leave_chat :: "server \<Rightarrow> socketId \<Rightarrow> objectId \<Rightarrow> server" where
  "on_leave_chat srv sid chatId =
     update_socket srv sid (\<lambda>r. r\<lparr>rooms := rooms r - {Chat_room chatId}\<rparr>)"

text \<open>The loop of the \<^verbatim>\<open>send_message\<close> handler over the other participants; every
  round awaits \<^verbatim>\<open>updateUnreadCount\<close>, which saves the chat.\<close>

fun unread_loop :: "db \<Rightarrow> objectId \<Rightarrow> chat \<Rightarrow> objectId list \<Rightarrow> db \<times> chat" where
  "unread_loop d chatId chat [] = (d, chat)"
| "unread_loop d chatId chat (participantId # rest) =
     (let r = updateUnreadCount chat participantId True
      in unread_loop (Chat_persist d chatId r) chatId (fst r) rest)"

text \<open>The \<^verbatim>\<open>send_message\<close> handler. A payload that cannot be destructured is \<open>None\<close>:
  the handler catches the error. \<^verbatim>\<open>Chat.findById\<close> is the lookup in the collection.
  The sender is filtered out by comparing with \<^verbatim>\<open>socket.userId\<close>, which no
  participant equals while it is unset.\<close>

definition on_send_message :: "server \<Rightarrow> socket \<Rightarrow> (objectId \<times> string) option \<Rightarrow> server" where
  "on_send_message srv socket data =
     (case data of
        None \<Rightarrow> srv
      | Some (chatId, message) \<Rightarrow>
          (let srv1 = to_room_emit srv (s_id socket) (Chat_room chatId) (New_message chatId message)
           in case db_chats (store srv1) chatId of
                None \<Rightarrow> srv1
              | Some chat \<Rightarrow>
                  (let otherParticipants =
                         filter (\<lambda>participant. Some participant \<noteq> userId socket) (participants chat)
                   in srv1\<lparr>store := fst (unread_loop (store srv1) chatId chat otherParticipants)\<rparr>)))"

definition on_typing :: "server \<Rightarrow> socket \<Rightarrow> objectId \<Rightarrow> bool \<Rightarrow> server" where
  "on_typing srv socket chatId isTyping =
     to_room_emit srv (s_id socket) (Chat_room chatId) (User_typing chatId (userId socket) isTyping)"

text \<open>The \<^verbatim>\<open>disconnect\<close> handler; the transport has removed the session (and its room
  memberships) before it runs.\<close>

definition on_disconnect :: "date \<Rightarrow> server \<Rightarrow> socket \<Rightarrow> server" where
  "on_disconnect now srv socket =
     (let srv1 = srv\<lparr>sockets := filter (\<lambda>r. s_id r \<noteq> s_id socket) (sockets srv),
                     connectionCount := connectionCount srv - 1\<rparr>
      in case userId socket of
           None \<Rightarrow> srv1
         | Some uid \<Rightarrow>
             (let srv2 = srv1\<lparr>connectedUsers := (connectedUsers srv1)(uid := None)\<rparr>;
                  srv3 = srv2\<lparr>store := User_findByIdAndUpdate (store srv2) uid Offline now\<rparr>
              in broadcast_emit srv3 (s_id socket) (User_status_change uid Offline)))"

text \<open>One event of one session, at one time. A session is known by its socket id; events
  of a session that is not connected do not occur, and a connection brings a fresh id.\<close>

definition step ::
  "(string \<Rightarrow> objectId option) \<Rightarrow> server \<Rightarrow> socketId \<times> date \<times> client_event \<Rightarrow> server" where
  "step jwt_verify srv x =
     (case x of (sid, now, ev) \<Rightarrow>
        (case find (\<lambda>r. s_id r = sid) (sockets srv) of
           None \<Rightarrow> (case ev of Connection \<Rightarrow> on_connection srv sid | _ \<Rightarrow> srv)
         | Some socket \<Rightarrow>
             (case ev of
                Connection \<Rightarrow> srv
              | Authenticate token \<Rightarrow> on_authenticate jwt_verify now srv sid token
              | Join_chat chatId \<Rightarrow> on_join_chat srv sid chatId
              | Leave_chat chatId \<Rightarrow> on_leave_chat srv sid chatId
              | Send_message data \<Rightarrow> on_send_message srv socket data
              | Typing_start chatId \<Rightarrow> on_typing srv socket chatId True
              | Typing_stop chatId \<Rightarrow> on_typing srv socket chatId False
              | Disconnect \<Rightarrow> on_disconnect now srv socket)))"

text \<open>A run of events in which every handler has finished before the next event is taken.
  The handlers of \<^verbatim>\<open>send_message\<close> are asynchronous and may overlap; the section on
  overlapping handlers below resumes them in any order, and a run is the case in which
  none of them overlaps another.\<close>

definition run ::
  "(string \<Rightarrow> objectId option) \<Rightarrow> server \<Rightarrow> (socketId \<times> date \<times> client_event) list \<Rightarrow> server" where
  "run jwt_verify srv xs = foldl (step jwt_verify) srv xs"

section \<open>Observations on the server\<close>

text \<open>The data model's well-formedness of the session table: socket ids are unique.\<close>

definition wf_server :: "server \<Rightarrow> bool" where
  "wf_server srv \<longleftrightarrow> distinct (map s_id (sockets srv))"

text \<open>The deliveries that a step (or a run) added, and what one session received of
  them, in order.\<close>

definition emitted :: "server \<Rightarrow> server \<Rightarrow> delivery list" where
  "emitted srv srv' = drop (length (outbox srv)) (outbox srv')"

definition received :: "delivery list \<Rightarrow> socketId \<Rightarrow> server_event list" where
  "received ds r = map payload (filter (\<lambda>d. recipient d = r) ds)"

text \<open>The \<^verbatim>\<open>user_status_change\<close> deliveries that the handlers of one session emitted.\<close>

fun is_status_change :: "server_event \<Rightarrow> bool" where
  "is_status_change (User_status_change uid st) = True"
| "is_status_change ev = False"

definition status_changes_of :: "socketId \<Rightarrow> delivery list \<Rightarrow> delivery list" where
  "status_changes_of sid ds = filter (\<lambda>d. origin d = sid \<and> is_status_change (payload d)) ds"

text \<open>An authentication succeeds when the token verifies and its user exists.\<close>

definition auth_succeeds :: "(string \<Rightarrow> objectId option) \<Rightarrow> server \<Rightarrow> string \<Rightarrow> bool" where
  "auth_succeeds jwt_verify srv token =
     (case jwt_verify token of None \<Rightarrow> False | Some uid \<Rightarrow> db_users (store srv) uid \<noteq> None)"

fun authenticates :: "(string \<Rightarrow> objectId option) \<Rightarrow> server \<Rightarrow> socketId \<Rightarrow> socketId \<times> date \<times> client_event \<Rightarrow> bool" where
  "authenticates jwt_verify srv sid (sid', now, Authenticate token) =
     (sid' = sid \<and> auth_succeeds jwt_verify srv token)"
| "authenticates jwt_verify srv sid (sid', now, ev) = False"

text \<open>No event of the run is a successful authentication of session \<open>sid\<close>.\<close>

fun never_authenticates ::
  "(string \<Rightarrow> objectId option) \<Rightarrow> server \<Rightarrow> socketId \<Rightarrow> (socketId \<times> date \<times> client_event) list \<Rightarrow> bool" where
  "never_authenticates jwt_verify srv sid [] = True"
| "never_authenticates jwt_verify srv sid (x # xs) =
     (\<not> authenticates jwt_verify srv sid x \<and>
      never_authenticates jwt_verify (step jwt_verify srv x) sid xs)"

text \<open>The event is the disconnect of session \<open>sid\<close>.\<close>

fun disconnects :: "socketId \<Rightarrow> socketId \<times> date \<times> client_event \<Rightarrow> bool" where
  "disconnects sid (sid', now, Disconnect) = (sid' = sid)"
| "disconnects sid (sid', now, ev) = False"

text \<open>The chat document after the loop of \<^verbatim>\<open>send_message\<close> went through a list of
  participants.\<close>

definition increments :: "chat \<Rightarrow> objectId list \<Rightarrow> chat" where
  "increments c ps = foldl (\<lambda>c p. fst (updateUnreadCount c p True)) c ps"

text \<open>The delivery of an event from one session to another.\<close>

definition deliver :: "socketId \<Rightarrow> server_event \<Rightarrow> socketId \<Rightarrow> delivery" where
  "deliver sid ev i = \<lparr>origin = sid, recipient = i, payload = ev\<rparr>"

section \<open>Send-message handlers that overlap\<close>

text \<open>
  The \<^verbatim>\<open>send_message\<close> handler is asynchronous. It emits \<^verbatim>\<open>new_message\<close> when the event
  is taken, and gives up control at \<^verbatim>\<open>await Chat.findById\<close> and at every
  \<^verbatim>\<open>await chat.updateUnreadCount\<close>; the handlers of other events run in between.
  Every handler works on its own copy of the chat document, which it loads once.

  \<^verbatim>\<open>save()\<close> of the library does not write the whole document. It writes the paths
  that the copy has modified since it was loaded or last saved: a count that
  \<^verbatim>\<open>updateUnreadCount\<close> changed is set by the position of its entry in the array, an
  entry that it pushed is appended to the stored array.
\<close>

datatype doc_write = Set_count nat int | Push unread_entry

text \<open>The writes of a save, from the counters of the copy before and after
  \<^verbatim>\<open>updateUnreadCount\<close> (which changes one count or pushes one entry), from position
  \<open>i\<close> on.\<close>

fun modified_paths :: "nat \<Rightarrow> unread_entry list \<Rightarrow> unread_entry list \<Rightarrow> doc_write list" where
  "modified_paths i [] new = map Push new"
| "modified_paths i (x # old) [] = []"
| "modified_paths i (x # old) (y # new) =
     (if uc_count y = uc_count x then [] else [Set_count i (uc_count y)])
       @ modified_paths (Suc i) old new"

text \<open>A write on the stored array; setting a position that the stored array does not
  have leaves it as it is.\<close>

fun apply_write :: "unread_entry list \<Rightarrow> doc_write \<Rightarrow> unread_entry list" where
  "apply_write es (Set_count i n) = (if i < length es then es[i := (es ! i)\<lparr>uc_count := n\<rparr>] else es)"
| "apply_write es (Push e) = es @ [e]"

fun positional :: "doc_write \<Rightarrow> bool" where
  "positional (Set_count i n) = True"
| "positional (Push e) = False"

text \<open>
  The library keeps a version number with every document. A save with nothing to
  write does nothing. A save that writes by position is refused (\<open>None\<close>) when the
  stored version is not the version \<open>v\<close> of the copy; a save that only appends is not
  checked. A save that appends increments the stored version. \<open>vs\<close> holds the stored
  versions.
\<close>

definition save_chat ::
  "db \<Rightarrow> (objectId \<Rightarrow> nat) \<Rightarrow> objectId \<Rightarrow> nat \<Rightarrow> doc_write list \<Rightarrow> (db \<times> (objectId \<Rightarrow> nat)) option" where
  "save_chat d vs cid v ws =
     (if ws = [] then Some (d, vs)
      else (case db_chats d cid of
              None \<Rightarrow> None
            | Some doc \<Rightarrow>
                if list_ex positional ws \<and> vs cid \<noteq> v then None
                else Some (d\<lparr>db_chats := (db_chats d)(cid \<mapsto>
                               doc\<lparr>unreadCounts := foldl apply_write (unreadCounts doc) ws\<rparr>)\<rparr>,
                           if list_ex (\<lambda>w. \<not> positional w) ws then vs(cid := Suc (vs cid)) else vs)))"

text \<open>A handler between two of its \<^verbatim>\<open>await\<close>s: it waits for \<^verbatim>\<open>Chat.findById\<close>
  (with the \<open>userId\<close> of its session and the chat id of the event), or it is in its loop
  with its copy of the chat, the version of the copy and the participants that are
  left, or it has finished.\<close>

record send_state =
  t_chatId :: objectId
  t_chat :: chat
  t_version :: nat
  t_todo :: "objectId list"

datatype handler_state = Waiting "objectId option" objectId | Running send_state | Finished

text \<open>
  A handler runs from one \<^verbatim>\<open>await\<close> to the next. Resumed from \<^verbatim>\<open>Chat.findById\<close> it
  filters the participants and goes into its loop. Resumed in the loop it calls
  \<^verbatim>\<open>updateUnreadCount\<close> on its copy for the next participant, and the save of that call
  reaches the store; a refused save throws, and the \<^verbatim>\<open>try/catch\<close> of the handler ends
  it.
\<close>

fun resume_handler :: "db \<Rightarrow> (objectId \<Rightarrow> nat) \<Rightarrow> handler_state \<Rightarrow> db \<times> (objectId \<Rightarrow> nat) \<times> handler_state" where
  "resume_handler d vs (Waiting uid chatId) =
     (case db_chats d chatId of
        None \<Rightarrow> (d, vs, Finished)
      | Some chat \<Rightarrow>
          (let otherParticipants =
                 filter (\<lambda>participant. Some participant \<noteq> uid) (participants chat)
           in (d, vs,
               if otherParticipants = [] then Finished
               else Running \<lparr>t_chatId = chatId, t_chat = chat, t_version = vs chatId,
                              t_todo = otherParticipants\<rparr>)))"
| "resume_handler d vs (Running t) =
     (case t_todo t of
        [] \<Rightarrow> (d, vs, Finished)
      | participantId # rest \<Rightarrow>
          (let r = updateUnreadCount (t_chat t) participantId True;
               ws = (if snd r
                     then modified_paths 0 (unreadCounts (t_chat t)) (unreadCounts (fst r))
                     else [])
           in case save_chat d vs (t_chatId t) (t_version t) ws of
                None \<Rightarrow> (d, vs, Finished)
              | Some (d', vs') \<Rightarrow>
                  (d', vs',
                   if rest = [] then Finished
                   else Running (t\<lparr>t_chat := fst r,
                                   t_version := (if list_ex (\<lambda>w. \<not> positional w) ws
                                                 then Suc (t_version t) else t_version t),
                                   t_todo := rest\<rparr>))))"
| "resume_handler d vs Finished = (d, vs, Finished)"

text \<open>The store, the stored versions and the handlers that have been started. A
  schedule names, step by step, the handler that is resumed next; any list is a
  schedule.\<close>

record handlers =
  h_db :: db
  h_versions :: "objectId \<Rightarrow> nat"
  h_states :: "handler_state list"

definition resume :: "handlers \<Rightarrow> nat \<Rightarrow> handlers" where
  "resume h k =
     (if k < length (h_states h)
      then (case resume_handler (h_db h) (h_versions h) (h_states h ! k) of
              (d, vs, t) \<Rightarrow> \<lparr>h_db = d, h_versions = vs, h_states = (h_states h)[k := t]\<rparr>)
      else h)"

definition schedule :: "handlers \<Rightarrow> nat list \<Rightarrow> handlers" where
  "schedule h ks = foldl resume h ks"

text \<open>The handlers of a list of \<^verbatim>\<open>send_message\<close> events, each given by the \<open>userId\<close> of
  its session and its chat id, all waiting for \<^verbatim>\<open>Chat.findById\<close>.\<close>

definition start :: "db \<Rightarrow> (objectId option \<times> objectId) list \<Rightarrow> handlers" where
  "start d sends =
     \<lparr>h_db = d, h_versions = (\<lambda>chatId. 0),
      h_states = map (\<lambda>(uid, chatId). Waiting uid chatId) sends\<rparr>"

text \<open>The schedule without overlap: every handler of \<open>ks\<close> in turn is resumed \<open>m\<close> times
  in a row. A handler has finished after one resume more than the chat has
  participants, and resuming a finished handler does nothing.\<close>

definition one_by_one :: "nat \<Rightarrow> nat list \<Rightarrow> nat list" where
  "one_by_one m ks = concat (map (replicate m) ks)"

section \<open>Sample data\<close>

definition chat0 :: chat where
  "chat0 = \<lparr> c_type = Direct, c_name = None, participants = [1, 2], admins = [],
     lastMessage = \<lparr> lm_id = None, lm_text = None, lm_sender = None,
                     lm_timestamp = 0, lm_isRead = False \<rparr>,
     unreadCounts = [\<lparr>uc_user = 1, uc_count = 4\<rparr>, \<lparr>uc_user = 2, uc_count = 3\<rparr>],
     isActive = True, deletedBy = [], pinnedMessages = [],
     allowInvites = True, readReceipts = True \<rparr>"

definition chat1 :: chat where
  "chat1 = chat0\<lparr>deletedBy := [1]\<rparr>"

definition jwt0 :: "string \<Rightarrow> objectId option" where
  "jwt0 token = (if token = ''t1'' then Some 1 else if token = ''t2'' then Some 2 else None)"

definition chat5 :: chat where
  "chat5 = chat0\<lparr>unreadCounts := [\<lparr>uc_user = 1, uc_count = 0\<rparr>]\<rparr>"

definition server0 :: server where
  "server0 = \<lparr> sockets =
       [\<lparr>s_id = 10, userId = Some 1, s_user = Some \<lparr>u_status = Online, u_lastSeen = 0\<rparr>,
          rooms = {User_room 1, Chat_room 5}\<rparr>,
        \<lparr>s_id = 20, userId = None, s_user = None, rooms = {Chat_room 5}\<rparr>,
        \<lparr>s_id = 30, userId = None, s_user = None, rooms = {}\<rparr>],
     connectedUsers = [1 \<mapsto> 10],
     connectionCount = 3,
     store = \<lparr> db_users = [1 \<mapsto> \<lparr>u_status = Online, u_lastSeen = 0\<rparr>,
                            2 \<mapsto> \<lparr>u_status = Offline, u_lastSeen = 0\<rparr>],
               db_chats = [5 \<mapsto> chat5], db_messages = [] \<rparr>,
     outbox = [] \<rparr>"

definition trace20 :: "(socketId \<times> date \<times> client_event) list" where
  "trace20 = [(20, 1, Authenticate ''t2''), (20, 2, Send_message (Some (5, ''x''))),
              (30, 3, Disconnect), (20, 4, Leave_chat 5)]"

definition trace30 :: "(socketId \<times> date \<times> client_event) list" where
  "trace30 = [(30, 1, Authenticate ''bad''), (30, 2, Join_chat 5),
              (30, 3, Send_message (Some (5, ''x''))), (30, 4, Disconnect)]"

definition message0 :: message where
  "message0 = \<lparr> m_id = 1, m_chat = 5, m_sender = 1, m_type = Text,
     content_text = Some ''hello'', replyTo = None, readBy = [],
     reactions = [\<lparr>r_user = 2, r_emoji = ''ok'', r_createdAt = 3\<rparr>],
     isEdited = False, editedAt = None, isDeleted = False, deletedAt = None,
     isPinned = False, createdAt = 10, isNew = False \<rparr>"

definition message1 :: message where
  "message1 = \<lparr> m_id = 1, m_chat = 5, m_sender = 1, m_type = Text,
     content_text = Some ''first'', replyTo = None, readBy = [], reactions = [],
     isEdited = False, editedAt = None, isDeleted = False, deletedAt = None,
     isPinned = False, createdAt = 10, isNew = True \<rparr>"

definition message2 :: message where
  "message2 = message1\<lparr>m_id := 2, m_sender := 2, content_text := Some ''second'', createdAt := 20\<rparr>"

definition db0 :: db where
  "db0 = \<lparr> db_users = Map.empty, db_chats = [5 \<mapsto> chat0], db_messages = [] \<rparr>"

definition ops0 :: "message_op list" where
  "ops0 = [Create message1, Create message2, Soft_delete 2 30]"


section \<open>Facts about the array helpers\<close>

lemma findIndex_None_iff: "findIndex P xs = None \<longleftrightarrow> (\<forall>x \<in> set xs. \<not> P x)"
  by (induction xs) auto

lemma findIndex_Some_props:
  "findIndex P xs = Some i \<Longrightarrow> i < length xs \<and> P (xs ! i) \<and> (\<forall>j < i. \<not> P (xs ! j))"
proof (induction xs arbitrary: i)
  case Nil
  then show ?case by simp
next
  case (Cons x xs)
  show ?case
  proof (cases "P x")
    case True
    with Cons.prems show ?thesis by simp
  next
    case False
    with Cons.prems obtain k where k: "findIndex P xs = Some k" "i = Suc k"
      by (auto split: if_splits)
    from Cons.IH [OF k(1)] False k(2) show ?thesis
      by (auto simp: less_Suc_eq_0_disj)
  qed
qed

lemma find_findIndex: "find P xs = map_option (\<lambda>i. xs ! i) (findIndex P xs)"
  by (induction xs) (auto simp: option.map_comp comp_def)

lemma find_update_hit:
  "findIndex P xs = Some i \<Longrightarrow> P y \<Longrightarrow> find P (xs[i := y]) = Some y"
proof (induction xs arbitrary: i)
  case Nil
  then show ?case by simp
next
  case (Cons x xs)
  then show ?case by (cases "P x") (auto split: if_splits)
qed

lemma filter_update_miss:
  "i < length xs \<Longrightarrow> \<not> Q (xs ! i) \<Longrightarrow> \<not> Q y \<Longrightarrow> filter Q (xs[i := y]) = filter Q xs"
proof (induction xs arbitrary: i)
  case Nil
  then show ?case by simp
next
  case (Cons x xs)
  then show ?case by (cases i) auto
qed

lemma find_update_miss:
  "i < length xs \<Longrightarrow> \<not> Q (xs ! i) \<Longrightarrow> \<not> Q y \<Longrightarrow> find Q (xs[i := y]) = find Q xs"
proof (induction xs arbitrary: i)
  case Nil
  then show ?case by simp
next
  case (Cons x xs)
  then show ?case by (cases i) auto
qed

lemma map_user_update:
  "map uc_user (xs[i := (xs ! i)\<lparr>uc_count := c\<rparr>]) = map uc_user xs"
proof (induction xs arbitrary: i)
  case Nil
  then show ?case by simp
next
  case (Cons x xs)
  then show ?case by (cases i) auto
qed

lemma find_None_iff_set: "find P xs = None \<longleftrightarrow> (\<forall>x \<in> set xs. \<not> P x)"
  by (induction xs) auto

lemma list_all_update:
  "list_all P xs \<Longrightarrow> P y \<Longrightarrow> list_all P (xs[i := y])"
proof (induction xs arbitrary: i)
  case Nil
  then show ?case by simp
next
  case (Cons x xs)
  then show ?case by (cases i) auto
qed

section \<open>Read acknowledgment\<close>

lemma markAsRead_hit:
  assumes "findIndex (\<lambda>item. uc_user item = u) (unreadCounts c) = Some i"
  shows "markAsRead c u =
    (c\<lparr>unreadCounts := (unreadCounts c)[i := (unreadCounts c ! i)\<lparr>uc_count := 0\<rparr>]\<rparr>, True)"
  using assms by (simp add: markAsRead_def save_def)

lemma markAsRead_miss:
  assumes "findIndex (\<lambda>item. uc_user item = u) (unreadCounts c) = None"
  shows "markAsRead c u = (c, False)"
  using assms by (simp add: markAsRead_def unsaved_def)

text \<open>
  Claim C2. For every chat and every user, \<^verbatim>\<open>markAsRead\<close> leaves that user's unread
  counter at exactly 0, whatever it was before, and leaves the entries (and so the
  counter) of every other user as they were; no entry is added or removed.
\<close>

theorem markAsRead_resets_only_own_counter:
  "getUnreadCount (fst (markAsRead c u)) u = 0 \<and>
   (\<forall>v. v \<noteq> u \<longrightarrow>
      entries_of (fst (markAsRead c u)) v = entries_of c v \<and>
      getUnreadCount (fst (markAsRead c u)) v = getUnreadCount c v) \<and>
   map uc_user (unreadCounts (fst (markAsRead c u))) = map uc_user (unreadCounts c)"
proof (cases "findIndex (\<lambda>item. uc_user item = u) (unreadCounts c)")
  case None
  then have "find (\<lambda>item. uc_user item = u) (unreadCounts c) = None"
    by (simp add: find_findIndex)
  with None show ?thesis
    by (simp add: markAsRead_miss getUnreadCount_def)
next
  case (Some i)
  let ?y = "(unreadCounts c ! i)\<lparr>uc_count := 0\<rparr>"
  from findIndex_Some_props [OF Some]
  have i: "i < length (unreadCounts c)" and hit: "uc_user (unreadCounts c ! i) = u"
    by simp_all
  have own: "find (\<lambda>item. uc_user item = u) ((unreadCounts c)[i := ?y]) = Some ?y"
    using find_update_hit [OF Some, of ?y] hit by simp
  have others: "filter (\<lambda>item. uc_user item = v) ((unreadCounts c)[i := ?y])
                  = filter (\<lambda>item. uc_user item = v) (unreadCounts c)"
    and others': "find (\<lambda>item. uc_user item = v) ((unreadCounts c)[i := ?y])
                  = find (\<lambda>item. uc_user item = v) (unreadCounts c)"
    if "v \<noteq> u" for v
    using that i hit by (simp_all add: filter_update_miss find_update_miss)
  show ?thesis
    using own others others'
    by (simp add: markAsRead_hit [OF Some] getUnreadCount_def entries_of_def map_user_update)
qed

theorem markAsRead_resets_only_own_counter_witness:
  "getUnreadCount chat0 2 = 3 \<and> getUnreadCount (fst (markAsRead chat0 2)) 2 = 0 \<and>
   (1::nat) \<noteq> 2 \<and> entries_of (fst (markAsRead chat0 2)) 1 = [\<lparr>uc_user = 1, uc_count = 4\<rparr>] \<and>
   getUnreadCount (fst (markAsRead chat0 2)) 1 = 4"
  using markAsRead_resets_only_own_counter [of chat0 2]
  by (simp add: chat0_def getUnreadCount_def entries_of_def)

text \<open>
  Claim C10. When the counters list of a chat holds no entry of the user,
  \<^verbatim>\<open>markAsRead\<close> returns the document as it is and does not call \<^verbatim>\<open>save()\<close>.
\<close>

theorem markAsRead_without_entry_is_noop:
  "u \<notin> set (map uc_user (unreadCounts c)) \<Longrightarrow> markAsRead c u = (c, False)"
proof -
  assume "u \<notin> set (map uc_user (unreadCounts c))"
  then have "findIndex (\<lambda>item. uc_user item = u) (unreadCounts c) = None"
    by (auto simp: findIndex_None_iff)
  then show ?thesis by (rule markAsRead_miss)
qed

theorem markAsRead_without_entry_is_noop_witness:
  "7 \<notin> set (map uc_user (unreadCounts chat0)) \<and> markAsRead chat0 7 = (chat0, False)"
proof -
  have h: "7 \<notin> set (map uc_user (unreadCounts chat0))"
    by (simp add: chat0_def)
  from h markAsRead_without_entry_is_noop [OF h] show ?thesis by simp
qed

section \<open>The invariant of the unread counters\<close>

lemma unread_inv_update:
  assumes "unread_inv c" and "0 \<le> n"
  shows "unread_inv (c\<lparr>unreadCounts := (unreadCounts c)[i := (unreadCounts c ! i)\<lparr>uc_count := n\<rparr>]\<rparr>)"
  using assms by (simp add: unread_inv_def map_user_update list_all_update)

lemma unread_inv_push:
  assumes "unread_inv c" and "findIndex (\<lambda>item. uc_user item = u) (unreadCounts c) = None"
    and "0 \<le> n"
  shows "unread_inv (c\<lparr>unreadCounts := unreadCounts c @ [\<lparr>uc_user = u, uc_count = n\<rparr>]\<rparr>)"
  using assms by (auto simp: unread_inv_def findIndex_None_iff)

lemma unread_inv_step:
  assumes "unread_inv c"
  shows "unread_inv (fst (updateUnreadCount c u increment))" and "unread_inv (fst (markAsRead c u))"
proof -
  have "unread_inv (fst (updateUnreadCount c u increment)) \<and> unread_inv (fst (markAsRead c u))"
  proof (cases "findIndex (\<lambda>item. uc_user item = u) (unreadCounts c)")
    case None
    with assms unread_inv_push [OF assms None, of 1] show ?thesis
      by (simp add: updateUnreadCount_def markAsRead_miss save_def)
  next
    case (Some i)
    let ?n = "uc_count (unreadCounts c ! i)"
    have "unread_inv (fst (updateUnreadCount c u increment))"
      using unread_inv_update [OF assms, of "?n + 1" i] unread_inv_update [OF assms, of "?n - 1" i]
        unread_inv_update [OF assms, of 0 i] Some
      by (simp add: updateUnreadCount_def save_def Let_def)
    moreover have "unread_inv (fst (markAsRead c u))"
      using unread_inv_update [OF assms, of 0 i] by (simp add: markAsRead_hit [OF Some])
    ultimately show ?thesis by simp
  qed
  then show "unread_inv (fst (updateUnreadCount c u increment))"
    and "unread_inv (fst (markAsRead c u))"
    by simp_all
qed

lemma unread_inv_ops: "unread_inv c \<Longrightarrow> unread_inv (foldl apply_unread_op c ops)"
proof (induction ops arbitrary: c)
  case Nil
  then show ?case by simp
next
  case (Cons op ops)
  from Cons.prems have "unread_inv (apply_unread_op c op)"
    by (cases op) (simp_all add: unread_inv_step)
  from Cons.IH [OF this] show ?case by simp
qed

section \<open>Soft delete and restore of a chat\<close>

text \<open>
  Claim C7 says that after \<^verbatim>\<open>deleteForUser\<close> and then \<^verbatim>\<open>restoreForUser\<close> for a user the
  \<^verbatim>\<open>deletedBy\<close> list is back at its prior value, for every chat. For a chat that the
  user had deleted already, \<^verbatim>\<open>deleteForUser\<close> takes its "already deleted" branch and
  changes nothing, and \<^verbatim>\<open>restoreForUser\<close> then removes the user: the list ends without
  the user it held before.
\<close>

theorem delete_restore_cycle_counterexample:
  "deletedBy chat1 = [1] \<and>
   deletedBy (fst (restoreForUser (fst (deleteForUser chat1 1)) 1)) = [] \<and>
   \<not> (deletedBy (fst (restoreForUser (fst (deleteForUser chat1 1)) 1)) = deletedBy chat1)"
  by (simp add: chat1_def chat0_def deleteForUser_def restoreForUser_def save_def unsaved_def some_def)

lemma deleteForUser_cases:
  "fst (deleteForUser c a) = (if a \<in> set (deletedBy c) then c else c\<lparr>deletedBy := deletedBy c @ [a]\<rparr>)"
  by (simp add: deleteForUser_def save_def unsaved_def some_def list_ex_iff)

lemma restoreForUser_cases:
  "fst (restoreForUser c a) =
     (if a \<in> set (deletedBy c) then c\<lparr>deletedBy := filter (\<lambda>i. i \<noteq> a) (deletedBy c)\<rparr> else c)"
  by (simp add: restoreForUser_def save_def unsaved_def some_def list_ex_iff)

text \<open>
  Claim C7, amended. For every chat \<open>c\<close> and user \<open>a\<close>, with \<open>c1\<close> the chat after
  \<^verbatim>\<open>deleteForUser\<close> and \<open>c2\<close> the chat after the following \<^verbatim>\<open>restoreForUser\<close>: both
  differ from \<open>c\<close> in \<^verbatim>\<open>deletedBy\<close> at most, so the unread entries of \<open>a\<close>, the
  \<^verbatim>\<open>lastMessage\<close> summary and the participants are as before, during and after the
  cycle; \<^verbatim>\<open>deletedBy\<close> ends as the prior list without \<open>a\<close>. When \<open>a\<close> was not in
  \<^verbatim>\<open>deletedBy\<close> before, the delete appends \<open>a\<close> and saves, and the restore saves and
  gives back the chat exactly as it was (a restore alone would do nothing and not
  save). When \<open>a\<close> was in \<^verbatim>\<open>deletedBy\<close> already, \<^verbatim>\<open>deleteForUser\<close> returns the chat as
  it is and does not save, and \<^verbatim>\<open>restoreForUser\<close> removes \<open>a\<close> and saves.
\<close>

theorem delete_restore_cycle:
  fixes c :: chat and a :: objectId
  defines "c1 \<equiv> fst (deleteForUser c a)"
  defines "c2 \<equiv> fst (restoreForUser c1 a)"
  shows "c1 = c\<lparr>deletedBy := deletedBy c1\<rparr> \<and> c2 = c\<lparr>deletedBy := deletedBy c2\<rparr> \<and>
         entries_of c1 a = entries_of c a \<and> entries_of c2 a = entries_of c a \<and>
         lastMessage c1 = lastMessage c \<and> lastMessage c2 = lastMessage c \<and>
         participants c1 = participants c \<and> participants c2 = participants c \<and>
         deletedBy c2 = filter (\<lambda>i. i \<noteq> a) (deletedBy c) \<and>
         (a \<notin> set (deletedBy c) \<longrightarrow> deletedBy c1 = deletedBy c @ [a] \<and> c2 = c \<and>
            deleteForUser c a = (c\<lparr>deletedBy := deletedBy c @ [a]\<rparr>, True) \<and>
            restoreForUser c1 a = (c, True) \<and>
            restoreForUser c a = (c, False)) \<and>
         (a \<in> set (deletedBy c) \<longrightarrow> deleteForUser c a = (c, False) \<and> c1 = c \<and>
            restoreForUser c1 a = (c\<lparr>deletedBy := filter (\<lambda>i. i \<noteq> a) (deletedBy c)\<rparr>, True))"
proof (cases "a \<in> set (deletedBy c)")
  case True
  then have d: "deleteForUser c a = (c, False)"
    by (simp add: deleteForUser_def unsaved_def some_def list_ex_iff)
  then have c1: "c1 = c" by (simp add: c1_def)
  from True have r: "restoreForUser c a = (c\<lparr>deletedBy := filter (\<lambda>i. i \<noteq> a) (deletedBy c)\<rparr>, True)"
    by (simp add: restoreForUser_def save_def some_def list_ex_iff)
  then have "c2 = c\<lparr>deletedBy := filter (\<lambda>i. i \<noteq> a) (deletedBy c)\<rparr>"
    by (simp add: c2_def c1)
  with True d c1 r show ?thesis by (simp add: entries_of_def)
next
  case False
  then have keep: "filter (\<lambda>i. i \<noteq> a) (deletedBy c) = deletedBy c"
    by (auto intro: filter_True)
  from False have d: "deleteForUser c a = (c\<lparr>deletedBy := deletedBy c @ [a]\<rparr>, True)"
    by (simp add: deleteForUser_def save_def some_def list_ex_iff)
  then have c1: "c1 = c\<lparr>deletedBy := deletedBy c @ [a]\<rparr>" by (simp add: c1_def)
  have r1: "restoreForUser c1 a = (c, True)"
    by (simp add: c1 restoreForUser_def save_def some_def list_ex_iff keep)
  then have c2: "c2 = c" by (simp add: c2_def)
  from False have r: "restoreForUser c a = (c, False)"
    by (simp add: restoreForUser_def unsaved_def some_def list_ex_iff)
  from False d c1 r1 c2 r keep show ?thesis by (simp add: entries_of_def)
qed

theorem delete_restore_cycle_witness:
  "2 \<notin> set (deletedBy chat1) \<and>
   deletedBy (fst (deleteForUser chat1 2)) = [1, 2] \<and>
   snd (deleteForUser chat1 2) = True \<and>
   restoreForUser (fst (deleteForUser chat1 2)) 2 = (chat1, True) \<and>
   restoreForUser chat1 2 = (chat1, False) \<and>
   entries_of (fst (restoreForUser (fst (deleteForUser chat1 2)) 2)) 2 = [\<lparr>uc_user = 2, uc_count = 3\<rparr>] \<and>
   1 \<in> set (deletedBy chat1) \<and>
   deleteForUser chat1 1 = (chat1, False) \<and>
   deletedBy (fst (restoreForUser (fst (deleteForUser chat1 1)) 1)) = [] \<and>
   snd (restoreForUser (fst (deleteForUser chat1 1)) 1) = True"
proof -
  have h: "2 \<notin> set (deletedBy chat1)" "1 \<in> set (deletedBy chat1)"
    by (simp_all add: chat1_def)
  have e: "entries_of chat1 2 = [\<lparr>uc_user = 2, uc_count = 3\<rparr>]"
    by (simp add: chat1_def chat0_def entries_of_def)
  have d: "deletedBy chat1 = [1]"
    by (simp add: chat1_def)
  from delete_restore_cycle [of chat1 2] h(1)
  have a: "deletedBy (fst (deleteForUser chat1 2)) = deletedBy chat1 @ [2]"
    "deleteForUser chat1 2 = (chat1\<lparr>deletedBy := deletedBy chat1 @ [2]\<rparr>, True)"
    "restoreForUser (fst (deleteForUser chat1 2)) 2 = (chat1, True)"
    "restoreForUser chat1 2 = (chat1, False)"
    by blast+
  from delete_restore_cycle [of chat1 2]
  have a': "entries_of (fst (restoreForUser (fst (deleteForUser chat1 2)) 2)) 2 = entries_of chat1 2"
    by blast
  from delete_restore_cycle [of chat1 1] h(2)
  have b: "deleteForUser chat1 1 = (chat1, False)"
    "restoreForUser (fst (deleteForUser chat1 1)) 1 =
       (chat1\<lparr>deletedBy := filter (\<lambda>i. i \<noteq> 1) (deletedBy chat1)\<rparr>, True)"
    by blast+
  from a(1) d have 1: "deletedBy (fst (deleteForUser chat1 2)) = [1, 2]" by simp
  from a(2) have 2: "snd (deleteForUser chat1 2) = True" by simp
  from b(2) d have 3: "deletedBy (fst (restoreForUser (fst (deleteForUser chat1 1)) 1)) = []"
    "snd (restoreForUser (fst (deleteForUser chat1 1)) 1) = True"
    by simp_all
  from h 1 2 3 a(3,4) a' e b(1) show ?thesis by simp
qed

section \<open>Reactions\<close>

lemma addReaction_toggle_off:
  assumes "\<exists>r \<in> set (reactions m). r_user r = u \<and> r_emoji r = e"
  shows "fst (addReaction m u e now) =
           m\<lparr>reactions := filter (\<lambda>r. \<not> (r_user r = u \<and> r_emoji r = e)) (reactions m)\<rparr>"
proof -
  from assms have "find (\<lambda>r. r_user r = u \<and> r_emoji r = e) (reactions m) \<noteq> None"
    by (simp add: find_None_iff_set)
  then show ?thesis by (simp add: addReaction_def save_def)
qed

lemma addReaction_put:
  assumes "\<forall>r \<in> set (reactions m). \<not> (r_user r = u \<and> r_emoji r = e)"
  shows "fst (addReaction m u e now) =
           m\<lparr>reactions := filter (\<lambda>r. r_user r \<noteq> u) (reactions m)
                @ [\<lparr>r_user = u, r_emoji = e, r_createdAt = now\<rparr>]\<rparr>"
proof -
  from assms have "find (\<lambda>r. r_user r = u \<and> r_emoji r = e) (reactions m) = None"
    by (simp add: find_None_iff_set)
  then show ?thesis by (simp add: addReaction_def save_def)
qed

lemma addReaction_twice_clears:
  assumes "\<forall>r \<in> set (reactions m). \<not> (r_user r = u \<and> r_emoji r = e)"
  shows "reactions (fst (addReaction (fst (addReaction m u e t1)) u e t2))
           = filter (\<lambda>r. r_user r \<noteq> u) (reactions m)"
proof -
  let ?m1 = "fst (addReaction m u e t1)"
  have m1: "?m1 = m\<lparr>reactions := filter (\<lambda>r. r_user r \<noteq> u) (reactions m)
                @ [\<lparr>r_user = u, r_emoji = e, r_createdAt = t1\<rparr>]\<rparr>"
    by (rule addReaction_put [OF assms])
  then have "\<exists>r \<in> set (reactions ?m1). r_user r = u \<and> r_emoji r = e"
    by simp
  from addReaction_toggle_off [OF this, of t2] m1
  have "reactions (fst (addReaction ?m1 u e t2)) =
          filter (\<lambda>r. \<not> (r_user r = u \<and> r_emoji r = e))
            (filter (\<lambda>r. r_user r \<noteq> u) (reactions m) @ [\<lparr>r_user = u, r_emoji = e, r_createdAt = t1\<rparr>])"
    by simp
  also have "\<dots> = filter (\<lambda>r. r_user r \<noteq> u) (reactions m)"
    by (auto intro: filter_cong)
  finally show ?thesis .
qed

lemma one_reaction_each_addReaction:
  assumes "one_reaction_each m"
  shows "one_reaction_each (fst (addReaction m u e now))"
proof (cases "\<exists>r \<in> set (reactions m). r_user r = u \<and> r_emoji r = e")
  case True
  from assms show ?thesis
    by (simp add: addReaction_toggle_off [OF True] one_reaction_each_def distinct_map_filter)
next
  case False
  then have no: "\<forall>r \<in> set (reactions m). \<not> (r_user r = u \<and> r_emoji r = e)" by simp
  from assms show ?thesis
    by (auto simp: addReaction_put [OF no] one_reaction_each_def distinct_map_filter)
qed

lemma one_reaction_each_addReactions:
  "one_reaction_each m \<Longrightarrow> one_reaction_each (addReactions m calls)"
  by (induction m calls rule: addReactions.induct) (simp_all add: one_reaction_each_addReaction)

text \<open>
  Claim C6 says that, for every message, participant and emoji, two calls of
  \<^verbatim>\<open>addReaction\<close> with the same emoji leave zero reactions of the participant. On the
  sample message user 2 holds the reaction \<open>ok\<close>: the first call with \<open>ok\<close> removes
  it, the second adds it again, and one reaction of user 2 is left.
\<close>

theorem addReaction_twice_counterexample:
  "reactions_by 2 message0 = [\<lparr>r_user = 2, r_emoji = ''ok'', r_createdAt = 3\<rparr>] \<and>
   reactions_by 2 (fst (addReaction message0 2 ''ok'' 4)) = [] \<and>
   reactions_by 2 (fst (addReaction (fst (addReaction message0 2 ''ok'' 4)) 2 ''ok'' 5)) =
     [\<lparr>r_user = 2, r_emoji = ''ok'', r_createdAt = 5\<rparr>] \<and>
   length (reactions_by 2 (fst (addReaction (fst (addReaction message0 2 ''ok'' 4)) 2 ''ok'' 5))) \<noteq> 0"
  by (simp add: message0_def addReaction_def save_def reactions_by_def)

text \<open>
  Claim C6, amended. When the participant does not hold the emoji on the message (they
  hold none, or other ones), one call of \<^verbatim>\<open>addReaction\<close> replaces what they held by
  the new reaction, at the end of the list, and a second call with the same emoji
  removes it: the participant has zero reactions, and the message is as it was when
  they held none before. When the participant holds the emoji already, the first call
  removes it (which leaves them none on a message with at most one reaction per
  participant) and the second call adds it again: after the two calls they hold
  exactly that reaction. Every call saves. A message with at most one reaction per
  participant, in particular one without reactions, has at most one reaction per
  participant after any sequence of calls.
\<close>

theorem addReaction_toggle_and_replace:
  "((\<forall>r \<in> set (reactions m). \<not> (r_user r = u \<and> r_emoji r = e)) \<longrightarrow>
      addReaction m u e t1 =
        (m\<lparr>reactions := filter (\<lambda>r. r_user r \<noteq> u) (reactions m)
             @ [\<lparr>r_user = u, r_emoji = e, r_createdAt = t1\<rparr>]\<rparr>, True) \<and>
      reactions_by u (fst (addReaction m u e t1)) = [\<lparr>r_user = u, r_emoji = e, r_createdAt = t1\<rparr>] \<and>
      addReaction (fst (addReaction m u e t1)) u e t2 =
        (m\<lparr>reactions := filter (\<lambda>r. r_user r \<noteq> u) (reactions m)\<rparr>, True) \<and>
      reactions_by u (fst (addReaction (fst (addReaction m u e t1)) u e t2)) = []) \<and>
   (reactions_by u m = [] \<longrightarrow>
      fst (addReaction (fst (addReaction m u e t1)) u e t2) = m \<and>
      reactions (fst (addReaction (fst (addReaction m u e t1)) u e t2)) = reactions m \<and>
      reactions_by u (fst (addReaction (fst (addReaction m u e t1)) u e t2)) = []) \<and>
   ((\<exists>r \<in> set (reactions m). r_user r = u \<and> r_emoji r = e) \<longrightarrow>
      addReaction m u e t1 =
        (m\<lparr>reactions := filter (\<lambda>r. \<not> (r_user r = u \<and> r_emoji r = e)) (reactions m)\<rparr>, True) \<and>
      addReaction (fst (addReaction m u e t1)) u e t2 =
        (m\<lparr>reactions := filter (\<lambda>r. r_user r \<noteq> u) (reactions m)
             @ [\<lparr>r_user = u, r_emoji = e, r_createdAt = t2\<rparr>]\<rparr>, True) \<and>
      reactions_by u (fst (addReaction (fst (addReaction m u e t1)) u e t2)) =
        [\<lparr>r_user = u, r_emoji = e, r_createdAt = t2\<rparr>] \<and>
      (one_reaction_each m \<longrightarrow> reactions_by u (fst (addReaction m u e t1)) = [])) \<and>
   (one_reaction_each m \<longrightarrow> one_reaction_each (addReactions m calls) \<and>
      (\<forall>v. length (reactions_by v (addReactions m calls)) \<le> 1)) \<and>
   (reactions m = [] \<longrightarrow> (\<forall>v. length (reactions_by v (addReactions m calls)) \<le> 1))"
proof -
  let ?m1 = "fst (addReaction m u e t1)"
  let ?m2 = "fst (addReaction ?m1 u e t2)"
  let ?new = "\<lambda>t. \<lparr>r_user = u, r_emoji = e, r_createdAt = t\<rparr>"
  have saves: "snd (addReaction x v f t) = True" for x v f t
    by (simp add: addReaction_def save_def)
  have pair: "addReaction x v f t = (fst (addReaction x v f t), True)" for x v f t
    using saves [of x v f t] by (cases "addReaction x v f t") simp
  have not_u: "filter (\<lambda>r. r_user r = u) (filter (\<lambda>r. r_user r \<noteq> u) rs) = []" for rs :: "reaction list"
    by (induction rs) auto
  have put: "addReaction m u e t1 =
        (m\<lparr>reactions := filter (\<lambda>r. r_user r \<noteq> u) (reactions m) @ [?new t1]\<rparr>, True) \<and>
      reactions_by u ?m1 = [?new t1] \<and>
      addReaction ?m1 u e t2 = (m\<lparr>reactions := filter (\<lambda>r. r_user r \<noteq> u) (reactions m)\<rparr>, True) \<and>
      reactions_by u ?m2 = []"
    if no: "\<forall>r \<in> set (reactions m). \<not> (r_user r = u \<and> r_emoji r = e)"
  proof -
    have m1: "?m1 = m\<lparr>reactions := filter (\<lambda>r. r_user r \<noteq> u) (reactions m) @ [?new t1]\<rparr>"
      by (rule addReaction_put [OF no])
    then have "\<exists>r \<in> set (reactions ?m1). r_user r = u \<and> r_emoji r = e" by simp
    from addReaction_toggle_off [OF this, of t2]
    have "?m2 = ?m1\<lparr>reactions := filter (\<lambda>r. \<not> (r_user r = u \<and> r_emoji r = e)) (reactions ?m1)\<rparr>" .
    moreover have "filter (\<lambda>r. \<not> (r_user r = u \<and> r_emoji r = e)) (reactions ?m1) =
        filter (\<lambda>r. r_user r \<noteq> u) (reactions m)"
      unfolding m1 by (auto intro: filter_cong)
    ultimately have m2: "?m2 = m\<lparr>reactions := filter (\<lambda>r. r_user r \<noteq> u) (reactions m)\<rparr>"
      by (simp add: m1)
    have "addReaction m u e t1 = (?m1, True)" by (rule pair)
    then have p1: "addReaction m u e t1 =
        (m\<lparr>reactions := filter (\<lambda>r. r_user r \<noteq> u) (reactions m) @ [?new t1]\<rparr>, True)"
      by (simp only: m1)
    have "addReaction ?m1 u e t2 = (?m2, True)" by (rule pair)
    then have p2: "addReaction ?m1 u e t2 =
        (m\<lparr>reactions := filter (\<lambda>r. r_user r \<noteq> u) (reactions m)\<rparr>, True)"
      by (simp only: m2)
    have r1: "reactions_by u ?m1 = [?new t1]"
      by (simp only: m1) (simp add: reactions_by_def not_u)
    have r2: "reactions_by u ?m2 = []"
      by (simp only: m2) (simp add: reactions_by_def not_u)
    from p1 r1 p2 r2 show ?thesis by (intro conjI)
  qed
  have none: "?m2 = m \<and> reactions ?m2 = reactions m \<and> reactions_by u ?m2 = []"
    if "reactions_by u m = []"
  proof -
    from that have no_u: "\<forall>r \<in> set (reactions m). r_user r \<noteq> u"
      by (auto simp: reactions_by_def filter_empty_conv)
    then have same: "filter (\<lambda>r. r_user r \<noteq> u) (reactions m) = reactions m"
      by (auto intro: filter_True)
    from no_u have "\<forall>r \<in> set (reactions m). \<not> (r_user r = u \<and> r_emoji r = e)" by auto
    from put [OF this]
    have "addReaction ?m1 u e t2 = (m\<lparr>reactions := filter (\<lambda>r. r_user r \<noteq> u) (reactions m)\<rparr>, True)"
      by blast
    then have "?m2 = m\<lparr>reactions := filter (\<lambda>r. r_user r \<noteq> u) (reactions m)\<rparr>"
      by (simp only: fst_conv)
    with same have "?m2 = m" by simp
    with that show ?thesis by simp
  qed
  have off: "addReaction m u e t1 =
        (m\<lparr>reactions := filter (\<lambda>r. \<not> (r_user r = u \<and> r_emoji r = e)) (reactions m)\<rparr>, True) \<and>
      addReaction ?m1 u e t2 =
        (m\<lparr>reactions := filter (\<lambda>r. r_user r \<noteq> u) (reactions m) @ [?new t2]\<rparr>, True) \<and>
      reactions_by u ?m2 = [?new t2] \<and>
      (one_reaction_each m \<longrightarrow> reactions_by u ?m1 = [])"
    if holds: "\<exists>r \<in> set (reactions m). r_user r = u \<and> r_emoji r = e"
  proof -
    have m1: "?m1 = m\<lparr>reactions := filter (\<lambda>r. \<not> (r_user r = u \<and> r_emoji r = e)) (reactions m)\<rparr>"
      by (rule addReaction_toggle_off [OF holds])
    then have "\<forall>r \<in> set (reactions ?m1). \<not> (r_user r = u \<and> r_emoji r = e)" by simp
    from addReaction_put [OF this, of t2]
    have "?m2 = ?m1\<lparr>reactions := filter (\<lambda>r. r_user r \<noteq> u) (reactions ?m1) @ [?new t2]\<rparr>" .
    moreover have "filter (\<lambda>r. r_user r \<noteq> u) (reactions ?m1) = filter (\<lambda>r. r_user r \<noteq> u) (reactions m)"
      unfolding m1 by (auto intro: filter_cong)
    ultimately have m2: "?m2 = m\<lparr>reactions := filter (\<lambda>r. r_user r \<noteq> u) (reactions m) @ [?new t2]\<rparr>"
      by (simp add: m1)
    have one: "filter (\<lambda>r. r_user r = u) (filter (\<lambda>r. \<not> (r_user r = u \<and> r_emoji r = e)) rs) = []"
      if d: "distinct (map r_user rs)" and ex: "\<exists>r \<in> set rs. r_user r = u \<and> r_emoji r = e"
      for rs :: "reaction list"
    proof -
      from d have inj: "inj_on r_user (set rs)" by (simp add: distinct_map)
      from ex obtain r0 where r0: "r0 \<in> set rs" "r_user r0 = u" "r_emoji r0 = e" by blast
      have "r_emoji r = e" if "r \<in> set rs" "r_user r = u" for r
      proof -
        from inj that r0(1,2) have "r = r0" by (simp add: inj_on_def)
        with r0(3) show ?thesis by simp
      qed
      then show ?thesis by (simp add: filter_empty_conv)
    qed
    have single: "reactions_by u ?m1 = []" if "one_reaction_each m"
    proof -
      from that have "distinct (map r_user (reactions m))" by (simp add: one_reaction_each_def)
      from one [OF this holds]
      have "filter (\<lambda>r. r_user r = u)
          (filter (\<lambda>r. \<not> (r_user r = u \<and> r_emoji r = e)) (reactions m)) = []" .
      moreover have "reactions ?m1 = filter (\<lambda>r. \<not> (r_user r = u \<and> r_emoji r = e)) (reactions m)"
        by (simp only: m1) simp
      ultimately show ?thesis by (simp only: reactions_by_def)
    qed
    have "addReaction m u e t1 = (?m1, True)" by (rule pair)
    then have p1: "addReaction m u e t1 =
        (m\<lparr>reactions := filter (\<lambda>r. \<not> (r_user r = u \<and> r_emoji r = e)) (reactions m)\<rparr>, True)"
      by (simp only: m1)
    have "addReaction ?m1 u e t2 = (?m2, True)" by (rule pair)
    then have p2: "addReaction ?m1 u e t2 =
        (m\<lparr>reactions := filter (\<lambda>r. r_user r \<noteq> u) (reactions m) @ [?new t2]\<rparr>, True)"
      by (simp only: m2)
    have r2: "reactions_by u ?m2 = [?new t2]"
      by (simp only: m2) (simp add: reactions_by_def not_u)
    from single have s: "one_reaction_each m \<longrightarrow> reactions_by u ?m1 = []" by (rule impI)
    from p1 p2 r2 s show ?thesis by (intro conjI)
  qed
  have len: "length (filter (\<lambda>r. r_user r = v) rs) \<le> 1" if "distinct (map r_user rs)"
    for v and rs :: "reaction list"
    using that by (induction rs) (auto simp: filter_empty_conv image_iff)
  have c: "one_reaction_each (addReactions m calls) \<and>
           (\<forall>v. length (reactions_by v (addReactions m calls)) \<le> 1)" if "one_reaction_each m"
  proof -
    from that have inv: "one_reaction_each (addReactions m calls)"
      by (rule one_reaction_each_addReactions)
    then have "distinct (map r_user (reactions (addReactions m calls)))"
      by (simp add: one_reaction_each_def)
    from len [OF this] inv show ?thesis by (simp add: reactions_by_def)
  qed
  have d: "\<forall>v. length (reactions_by v (addReactions m calls)) \<le> 1" if "reactions m = []"
  proof -
    from that have "one_reaction_each m" by (simp add: one_reaction_each_def)
    from c [OF this] show ?thesis by simp
  qed
  from put have 1: "(\<forall>r \<in> set (reactions m). \<not> (r_user r = u \<and> r_emoji r = e)) \<longrightarrow>
      addReaction m u e t1 =
        (m\<lparr>reactions := filter (\<lambda>r. r_user r \<noteq> u) (reactions m) @ [?new t1]\<rparr>, True) \<and>
      reactions_by u ?m1 = [?new t1] \<and>
      addReaction ?m1 u e t2 = (m\<lparr>reactions := filter (\<lambda>r. r_user r \<noteq> u) (reactions m)\<rparr>, True) \<and>
      reactions_by u ?m2 = []"
    by (rule impI)
  from none have 2: "reactions_by u m = [] \<longrightarrow>
      ?m2 = m \<and> reactions ?m2 = reactions m \<and> reactions_by u ?m2 = []"
    by (rule impI)
  from off have 3: "(\<exists>r \<in> set (reactions m). r_user r = u \<and> r_emoji r = e) \<longrightarrow>
      addReaction m u e t1 =
        (m\<lparr>reactions := filter (\<lambda>r. \<not> (r_user r = u \<and> r_emoji r = e)) (reactions m)\<rparr>, True) \<and>
      addReaction ?m1 u e t2 =
        (m\<lparr>reactions := filter (\<lambda>r. r_user r \<noteq> u) (reactions m) @ [?new t2]\<rparr>, True) \<and>
      reactions_by u ?m2 = [?new t2] \<and>
      (one_reaction_each m \<longrightarrow> reactions_by u ?m1 = [])"
    by (rule impI)
  from c have 4: "one_reaction_each m \<longrightarrow> one_reaction_each (addReactions m calls) \<and>
      (\<forall>v. length (reactions_by v (addReactions m calls)) \<le> 1)"
    by (rule impI)
  from d have 5: "reactions m = [] \<longrightarrow> (\<forall>v. length (reactions_by v (addReactions m calls)) \<le> 1)"
    by (rule impI)
  from 1 2 3 4 5 show ?thesis by - (intro conjI; assumption)
qed

theorem addReaction_toggle_and_replace_witness:
  "reactions_by 3 message0 = [] \<and>
   fst (addReaction (fst (addReaction message0 3 ''up'' 4)) 3 ''up'' 5) = message0 \<and>
   reactions_by 2 (fst (addReaction message0 2 ''up'' 4)) = [\<lparr>r_user = 2, r_emoji = ''up'', r_createdAt = 4\<rparr>] \<and>
   reactions_by 2 (fst (addReaction (fst (addReaction message0 2 ''up'' 4)) 2 ''up'' 5)) = [] \<and>
   reactions_by 2 message0 = [\<lparr>r_user = 2, r_emoji = ''ok'', r_createdAt = 3\<rparr>] \<and>
   reactions_by 2 (fst (addReaction message0 2 ''ok'' 4)) = [] \<and>
   reactions_by 2 (fst (addReaction (fst (addReaction message0 2 ''ok'' 4)) 2 ''ok'' 5)) =
     [\<lparr>r_user = 2, r_emoji = ''ok'', r_createdAt = 5\<rparr>] \<and>
   one_reaction_each message0 \<and>
   one_reaction_each (addReactions message0 [(2, ''up'', 4), (3, ''up'', 5), (2, ''ok'', 6)])"
proof -
  have h1: "reactions_by 3 message0 = []"
    "reactions_by 2 message0 = [\<lparr>r_user = 2, r_emoji = ''ok'', r_createdAt = 3\<rparr>]"
    by (simp_all add: reactions_by_def message0_def)
  have h2: "\<forall>r \<in> set (reactions message0). \<not> (r_user r = 2 \<and> r_emoji r = ''up'')"
    by (simp add: message0_def)
  have h3: "one_reaction_each message0"
    by (simp add: one_reaction_each_def message0_def)
  have h4: "\<exists>r \<in> set (reactions message0). r_user r = 2 \<and> r_emoji r = ''ok''"
    by (simp add: message0_def)
  note t3 = addReaction_toggle_and_replace [of message0 3 "''up''" 4 5 "[]"]
  note t2 = addReaction_toggle_and_replace [of message0 2 "''up''" 4 5
      "[(2, ''up'', 4), (3, ''up'', 5), (2, ''ok'', 6)]"]
  note t1 = addReaction_toggle_and_replace [of message0 2 "''ok''" 4 5 "[]"]
  from t3 have "reactions_by 3 message0 = [] \<longrightarrow>
      fst (addReaction (fst (addReaction message0 3 ''up'' 4)) 3 ''up'' 5) = message0 \<and>
      reactions (fst (addReaction (fst (addReaction message0 3 ''up'' 4)) 3 ''up'' 5)) = reactions message0 \<and>
      reactions_by 3 (fst (addReaction (fst (addReaction message0 3 ''up'' 4)) 3 ''up'' 5)) = []"
    by (elim conjE)
  with h1(1) have a: "fst (addReaction (fst (addReaction message0 3 ''up'' 4)) 3 ''up'' 5) = message0"
    by blast
  from t2 have "(\<forall>r \<in> set (reactions message0). \<not> (r_user r = 2 \<and> r_emoji r = ''up'')) \<longrightarrow>
      addReaction message0 2 ''up'' 4 =
        (message0\<lparr>reactions := filter (\<lambda>r. r_user r \<noteq> 2) (reactions message0)
             @ [\<lparr>r_user = 2, r_emoji = ''up'', r_createdAt = 4\<rparr>]\<rparr>, True) \<and>
      reactions_by 2 (fst (addReaction message0 2 ''up'' 4)) = [\<lparr>r_user = 2, r_emoji = ''up'', r_createdAt = 4\<rparr>] \<and>
      addReaction (fst (addReaction message0 2 ''up'' 4)) 2 ''up'' 5 =
        (message0\<lparr>reactions := filter (\<lambda>r. r_user r \<noteq> 2) (reactions message0)\<rparr>, True) \<and>
      reactions_by 2 (fst (addReaction (fst (addReaction message0 2 ''up'' 4)) 2 ''up'' 5)) = []"
    by (elim conjE)
  with h2 have b: "reactions_by 2 (fst (addReaction message0 2 ''up'' 4)) = [\<lparr>r_user = 2, r_emoji = ''up'', r_createdAt = 4\<rparr>]"
    "reactions_by 2 (fst (addReaction (fst (addReaction message0 2 ''up'' 4)) 2 ''up'' 5)) = []"
    by blast+
  from t2 have "one_reaction_each message0 \<longrightarrow>
      one_reaction_each (addReactions message0 [(2, ''up'', 4), (3, ''up'', 5), (2, ''ok'', 6)]) \<and>
      (\<forall>v. length (reactions_by v (addReactions message0 [(2, ''up'', 4), (3, ''up'', 5), (2, ''ok'', 6)])) \<le> 1)"
    by (elim conjE)
  with h3 have b': "one_reaction_each (addReactions message0 [(2, ''up'', 4), (3, ''up'', 5), (2, ''ok'', 6)])"
    by blast
  from t1 have "(\<exists>r \<in> set (reactions message0). r_user r = 2 \<and> r_emoji r = ''ok'') \<longrightarrow>
      addReaction message0 2 ''ok'' 4 =
        (message0\<lparr>reactions := filter (\<lambda>r. \<not> (r_user r = 2 \<and> r_emoji r = ''ok'')) (reactions message0)\<rparr>, True) \<and>
      addReaction (fst (addReaction message0 2 ''ok'' 4)) 2 ''ok'' 5 =
        (message0\<lparr>reactions := filter (\<lambda>r. r_user r \<noteq> 2) (reactions message0)
             @ [\<lparr>r_user = 2, r_emoji = ''ok'', r_createdAt = 5\<rparr>]\<rparr>, True) \<and>
      reactions_by 2 (fst (addReaction (fst (addReaction message0 2 ''ok'' 4)) 2 ''ok'' 5)) =
        [\<lparr>r_user = 2, r_emoji = ''ok'', r_createdAt = 5\<rparr>] \<and>
      (one_reaction_each message0 \<longrightarrow> reactions_by 2 (fst (addReaction message0 2 ''ok'' 4)) = [])"
    by (elim conjE)
  with h4 h3 have c: "reactions_by 2 (fst (addReaction message0 2 ''ok'' 4)) = []"
    "reactions_by 2 (fst (addReaction (fst (addReaction message0 2 ''ok'' 4)) 2 ''ok'' 5)) =
     [\<lparr>r_user = 2, r_emoji = ''ok'', r_createdAt = 5\<rparr>]"
    by blast+
  from h1 h3 a b b' c show ?thesis by (intro conjI)
qed

section \<open>The last message of a chat\<close>

lemma summary_of_isNew [simp]: "summary_of (m\<lparr>isNew := b\<rparr>) = summary_of m"
  by (simp add: summary_of_def)

lemma pre_save_chats:
  "db_chats (pre_save d m) =
     (if isNew m \<and> \<not> isDeleted m
      then (case db_chats d (m_chat m) of None \<Rightarrow> db_chats d
            | Some c \<Rightarrow> (db_chats d)(m_chat m \<mapsto> c\<lparr>lastMessage := summary_of m\<rparr>))
      else db_chats d)"
  by (simp add: pre_save_def summary_of_def split: option.splits)

lemma Message_persist_chats: "db_chats (Message_persist d (m, True)) = db_chats (pre_save d m)"
  by (simp add: Message_persist_def Let_def)

lemma exec_Create_chat:
  assumes "db_chats d cid = Some c"
  shows "db_chats (exec d (Create m)) cid =
           Some (if m_chat m = cid \<and> \<not> isDeleted m then c\<lparr>lastMessage := summary_of m\<rparr> else c)"
  using assms by (simp add: save_def Message_persist_chats pre_save_chats split: option.splits)

lemma exec_Soft_delete_chats: "db_chats (exec d (Soft_delete mid now)) = db_chats d"
  by (simp add: Message_findById_def softDelete_def save_def Message_persist_chats pre_save_chats
        split: option.splits)

lemma exec_all_lastMessage:
  assumes "db_chats d cid = Some c"
  shows "\<exists>c'. db_chats (foldl exec d ops) cid = Some c' \<and>
              c' = c\<lparr>lastMessage := lastMessage c'\<rparr> \<and>
              lastMessage c' = (case created_live cid ops of [] \<Rightarrow> lastMessage c
                                | ms \<Rightarrow> summary_of (last ms))"
  using assms
proof (induction ops arbitrary: d c)
  case Nil
  then show ?case by simp
next
  case (Cons op ops)
  show ?case
  proof (cases op)
    case (Create m)
    show ?thesis
    proof (cases "m_chat m = cid \<and> \<not> isDeleted m")
      case True
      let ?c1 = "c\<lparr>lastMessage := summary_of m\<rparr>"
      from Cons.prems True have "db_chats (exec d (Create m)) cid = Some ?c1"
        by (simp add: exec_Create_chat del: exec.simps)
      from Cons.IH [OF this] obtain c' where
        c': "db_chats (foldl exec (exec d (Create m)) ops) cid = Some c'"
          "c' = ?c1\<lparr>lastMessage := lastMessage c'\<rparr>"
          "lastMessage c' = (case created_live cid ops of [] \<Rightarrow> lastMessage ?c1
                                | ms \<Rightarrow> summary_of (last ms))"
        by blast
      from c'(2) have "c' = c\<lparr>lastMessage := lastMessage c'\<rparr>" by simp
      moreover from c'(3) True
      have "lastMessage c' = (case created_live cid (Create m # ops) of [] \<Rightarrow> lastMessage c
                                | ms \<Rightarrow> summary_of (last ms))"
        by (simp split: list.splits)
      ultimately show ?thesis using c'(1) Create by simp
    next
      case False
      with Cons.prems have "db_chats (exec d (Create m)) cid = Some c"
        by (auto simp add: exec_Create_chat simp del: exec.simps)
      from Cons.IH [OF this] False Create show ?thesis by (auto simp del: exec.simps)
    qed
  next
    case (Soft_delete mid now)
    from Cons.prems have "db_chats (exec d (Soft_delete mid now)) cid = Some c"
      by (simp add: exec_Soft_delete_chats del: exec.simps)
    from Cons.IH [OF this] Soft_delete show ?thesis by simp
  qed
qed

text \<open>
  Claim C5 says that after creations and soft-deletes the summary refers to the most
  recently created message that is not deleted. In a chat with two messages, created in
  this order, a soft-delete of the second leaves the summary on the second, which is now
  deleted; the most recently created message that is not deleted is the first.
\<close>

theorem lastMessage_after_soft_delete_counterexample:
  "latest_live_message (exec_all db0 ops0) 5 = Some 1 \<and>
   map_option (\<lambda>c. lm_id (lastMessage c)) (db_chats (exec_all db0 ops0) 5) = Some (Some 2) \<and>
   map isDeleted (db_messages (exec_all db0 ops0)) = [False, True] \<and>
   map_option (\<lambda>c. lm_id (lastMessage c)) (db_chats (exec_all db0 ops0) 5) \<noteq>
     Some (latest_live_message (exec_all db0 ops0) 5)"
  by (simp add: exec_all_def db0_def ops0_def message1_def message2_def chat0_def
        Message_persist_def pre_save_def summary_of_def save_def softDelete_def
        Message_findById_def latest_live_message_def Let_def)

text \<open>
  Claim C5, amended. For every existing chat, after any sequence of message creations
  and soft-deletes the chat differs from before in \<^verbatim>\<open>lastMessage\<close> at most, and the
  summary is the one of the most recently created message of that chat that was not
  deleted when it was created (the prior summary when there is none); a soft-delete
  changes no chat document.
\<close>

theorem lastMessage_tracks_creations:
  assumes "db_chats d cid = Some c"
  shows "\<exists>c'. db_chats (exec_all d ops) cid = Some c' \<and>
              c' = c\<lparr>lastMessage := lastMessage c'\<rparr> \<and>
              lastMessage c' = (case created_live cid ops of [] \<Rightarrow> lastMessage c
                                | ms \<Rightarrow> summary_of (last ms)) \<and>
              db_chats (exec (exec_all d ops) (Soft_delete mid now)) = db_chats (exec_all d ops)"
  using exec_all_lastMessage [OF assms, of ops] exec_Soft_delete_chats [of "exec_all d ops" mid now]
  by (simp add: exec_all_def del: exec.simps)

theorem lastMessage_tracks_creations_witness:
  "db_chats db0 5 = Some chat0 \<and>
   created_live 5 ops0 = [message1, message2] \<and>
   map_option (\<lambda>c. lm_id (lastMessage c)) (db_chats (exec_all db0 ops0) 5) = Some (Some 2)"
proof -
  have h: "db_chats db0 5 = Some chat0" by (simp add: db0_def)
  have l: "created_live 5 ops0 = [message1, message2]"
    by (simp add: ops0_def message1_def message2_def)
  from lastMessage_tracks_creations [OF h, of ops0 0 0] l
  have "map_option (\<lambda>c. lm_id (lastMessage c)) (db_chats (exec_all db0 ops0) 5) = Some (Some 2)"
    by (auto simp: summary_of_def message2_def)
  with h l show ?thesis by simp
qed

section \<open>Incrementing unread counters\<close>





lemma updateUnreadCount_saves: "snd (updateUnreadCount c p b) = True"
  by (simp add: updateUnreadCount_def save_def Let_def split: option.splits)

lemma updateUnreadCount_participants [simp]:
  "participants (fst (updateUnreadCount c p b)) = participants c"
  by (simp add: updateUnreadCount_def save_def Let_def split: option.splits)




lemma Chat_persist_fields [simp]:
  "db_users (Chat_persist d cid r) = db_users d"
  "db_messages (Chat_persist d cid r) = db_messages d"
  "db_chats (Chat_persist d cid r) = (if snd r then (db_chats d)(cid \<mapsto> fst r) else db_chats d)"
  by (simp_all add: Chat_persist_def)


lemma increments_participants [simp]: "participants (increments c ps) = participants c"
  by (induction ps arbitrary: c) (simp_all add: increments_def)




section \<open>The send-message handler\<close>

lemma emit_to_fields [simp]:
  "sockets (emit_to srv sid P ev) = sockets srv"
  "store (emit_to srv sid P ev) = store srv"
  "connectedUsers (emit_to srv sid P ev) = connectedUsers srv"
  "connectionCount (emit_to srv sid P ev) = connectionCount srv"
  by (simp_all add: emit_to_def)


lemma step_send_message:
  assumes "find (\<lambda>r. s_id r = sid) (sockets srv) = Some s"
  shows "step jwt srv (sid, now, Send_message data) = on_send_message srv s data"
  using assms by (simp add: step_def)

lemma on_send_message_sockets [simp]: "sockets (on_send_message srv s data) = sockets srv"
  by (simp add: on_send_message_def to_room_emit_def Let_def split: option.splits prod.splits)


section \<open>Send-message handlers that overlap: what a handler leaves\<close>

lemma apply_pushes: "foldl apply_write pre (map Push ys) = pre @ ys"
  by (induction ys arbitrary: pre) simp_all

lemma entry_with_count:
  "uc_user x = uc_user y \<Longrightarrow> x\<lparr>uc_count := uc_count y\<rparr> = (y :: unread_entry)"
  by simp

lemma apply_modified_paths:
  assumes "map uc_user xs = take (length xs) (map uc_user ys)" and "length xs \<le> length ys"
  shows "foldl apply_write (pre @ xs) (modified_paths (length pre) xs ys) = pre @ ys"
  using assms
proof (induction xs arbitrary: pre ys)
  case Nil
  then show ?case by (simp add: apply_pushes)
next
  case (Cons x xs)
  from Cons.prems obtain y ys' where ys: "ys = y # ys'" by (cases ys) auto
  with Cons.prems have user: "uc_user x = uc_user y"
    and rest: "map uc_user xs = take (length xs) (map uc_user ys')" "length xs \<le> length ys'"
    by simp_all
  have first: "foldl apply_write (pre @ x # xs)
                 (if uc_count y = uc_count x then [] else [Set_count (length pre) (uc_count y)])
               = (pre @ [y]) @ xs"
    using user by (simp add: nth_append list_update_append)
  from Cons.IH [OF rest, of "pre @ [y]"]
  have "foldl apply_write ((pre @ [y]) @ xs) (modified_paths (Suc (length pre)) xs ys') = (pre @ [y]) @ ys'"
    by simp
  with first show ?case by (simp add: ys)
qed

lemma updateUnreadCount_shape:
  "map uc_user (unreadCounts c) =
     take (length (unreadCounts c)) (map uc_user (unreadCounts (fst (updateUnreadCount c p b)))) \<and>
   length (unreadCounts c) \<le> length (unreadCounts (fst (updateUnreadCount c p b)))"
  by (simp add: updateUnreadCount_def save_def Let_def map_user_update split: option.splits)

lemma updateUnreadCount_frame:
  "fst (updateUnreadCount c p b) = c\<lparr>unreadCounts := unreadCounts (fst (updateUnreadCount c p b))\<rparr>"
  by (simp add: updateUnreadCount_def save_def Let_def split: option.splits)

lemma modified_paths_written:
  "foldl apply_write (unreadCounts c)
     (modified_paths 0 (unreadCounts c) (unreadCounts (fst (updateUnreadCount c p b))))
   = unreadCounts (fst (updateUnreadCount c p b))"
  using apply_modified_paths [of "unreadCounts c" "unreadCounts (fst (updateUnreadCount c p b))" "[]"]
    updateUnreadCount_shape [of c p b]
  by simp

lemma save_chat_own_copy:
  assumes "db_chats d cid = Some c" and "vs cid = v"
  shows "\<exists>vs'. save_chat d vs cid v
            (modified_paths 0 (unreadCounts c) (unreadCounts (fst (updateUnreadCount c p True))))
          = Some (d\<lparr>db_chats := (db_chats d)(cid \<mapsto> fst (updateUnreadCount c p True))\<rparr>, vs') \<and>
          vs' cid = (if list_ex (\<lambda>w. \<not> positional w)
                        (modified_paths 0 (unreadCounts c) (unreadCounts (fst (updateUnreadCount c p True))))
                     then Suc v else v)"
proof -
  let ?c1 = "fst (updateUnreadCount c p True)"
  let ?ws = "modified_paths 0 (unreadCounts c) (unreadCounts ?c1)"
  have written: "foldl apply_write (unreadCounts c) ?ws = unreadCounts ?c1"
    by (rule modified_paths_written)
  have c1: "c\<lparr>unreadCounts := unreadCounts ?c1\<rparr> = ?c1"
    using updateUnreadCount_frame [of c p True] by simp
  show ?thesis
  proof (cases "?ws = []")
    case True
    with written have "unreadCounts ?c1 = unreadCounts c" by simp
    with c1 have "?c1 = c" by simp
    with assms True show ?thesis
      by (simp add: save_chat_def fun_upd_idem)
  next
    case False
    with assms written c1 show ?thesis
      by (simp add: save_chat_def)
  qed
qed

lemma resume_running_own_copy:
  assumes "db_chats d (t_chatId t) = Some (t_chat t)" and "vs (t_chatId t) = t_version t"
    and "t_todo t = p # rest"
  shows "\<exists>vs' t'. resume_handler d vs (Running t) =
           (d\<lparr>db_chats := (db_chats d)(t_chatId t \<mapsto> fst (updateUnreadCount (t_chat t) p True))\<rparr>,
            vs', if rest = [] then Finished else Running t') \<and>
           t_chatId t' = t_chatId t \<and> t_chat t' = fst (updateUnreadCount (t_chat t) p True) \<and>
           t_version t' = vs' (t_chatId t) \<and> t_todo t' = rest"
proof -
  from save_chat_own_copy [where vs = vs and d = d and p = p, OF assms(1,2)] obtain vs' where
    vs': "save_chat d vs (t_chatId t) (t_version t)
            (modified_paths 0 (unreadCounts (t_chat t))
               (unreadCounts (fst (updateUnreadCount (t_chat t) p True))))
          = Some (d\<lparr>db_chats := (db_chats d)(t_chatId t \<mapsto> fst (updateUnreadCount (t_chat t) p True))\<rparr>, vs')"
    "vs' (t_chatId t) = (if list_ex (\<lambda>w. \<not> positional w)
                        (modified_paths 0 (unreadCounts (t_chat t))
                           (unreadCounts (fst (updateUnreadCount (t_chat t) p True))))
                     then Suc (t_version t) else t_version t)"
    by blast
  let ?t' = "t\<lparr>t_chat := fst (updateUnreadCount (t_chat t) p True),
               t_version := vs' (t_chatId t), t_todo := rest\<rparr>"
  have "resume_handler d vs (Running t) =
           (d\<lparr>db_chats := (db_chats d)(t_chatId t \<mapsto> fst (updateUnreadCount (t_chat t) p True))\<rparr>,
            vs', if rest = [] then Finished else Running ?t')"
    using assms(3) vs' by (simp add: Let_def updateUnreadCount_saves)
  then show ?thesis by (intro exI [of _ vs'] exI [of _ ?t']) simp
qed

lemma increments_Cons:
  "increments c (p # ps) = increments (fst (updateUnreadCount c p True)) ps"
  by (simp add: increments_def)

lemma schedule_Cons: "schedule h (k # ks) = schedule (resume h k) ks"
  by (simp add: schedule_def)

lemma schedule_append: "schedule h (ks @ ks') = schedule (schedule h ks) ks'"
  by (simp add: schedule_def)

lemma resume_Finished:
  "k < length (h_states h) \<Longrightarrow> h_states h ! k = Finished \<Longrightarrow> resume h k = h"
  by (simp add: resume_def list_update_same_conv)

lemma schedule_Finished:
  "k < length (h_states h) \<Longrightarrow> h_states h ! k = Finished \<Longrightarrow> schedule h (replicate n k) = h"
  by (induction n) (simp_all add: schedule_def resume_Finished)

text \<open>A running handler whose copy is the stored document, resumed until its loop ends.\<close>

lemma running_alone:
  assumes "k < length (h_states h)" and "h_states h ! k = Running t"
    and "db_chats (h_db h) (t_chatId t) = Some (t_chat t)"
    and "h_versions h (t_chatId t) = t_version t"
    and "t_todo t \<noteq> []" and "length (t_todo t) \<le> n"
  shows "h_db (schedule h (replicate n k)) =
           (h_db h)\<lparr>db_chats := (db_chats (h_db h))(t_chatId t \<mapsto> increments (t_chat t) (t_todo t))\<rparr> \<and>
         h_states (schedule h (replicate n k)) = (h_states h)[k := Finished]"
  using assms
proof (induction "t_todo t" arbitrary: h t n)
  case Nil
  then show ?case by simp
next
  case (Cons p rest)
  from Cons.hyps(2) have todo: "t_todo t = p # rest" by simp
  from Cons.prems(6) todo obtain n' where n: "n = Suc n'" "length rest \<le> n'"
    by (cases n) auto
  let ?c1 = "fst (updateUnreadCount (t_chat t) p True)"
  let ?d1 = "(h_db h)\<lparr>db_chats := (db_chats (h_db h))(t_chatId t \<mapsto> ?c1)\<rparr>"
  from resume_running_own_copy [where d = "h_db h" and vs = "h_versions h" and t = t,
      OF Cons.prems(3,4) todo] obtain vs' t' where
    r: "resume_handler (h_db h) (h_versions h) (Running t) =
          (?d1, vs', if rest = [] then Finished else Running t')"
    and t': "t_chatId t' = t_chatId t" "t_chat t' = ?c1" "t_version t' = vs' (t_chatId t)"
      "t_todo t' = rest"
    by blast
  let ?h1 = "\<lparr>h_db = ?d1, h_versions = vs',
              h_states = (h_states h)[k := if rest = [] then Finished else Running t']\<rparr>"
  have h1: "resume h k = ?h1"
    using Cons.prems(1,2) r by (simp add: resume_def)
  have unfold: "schedule h (replicate n k) = schedule ?h1 (replicate n' k)"
    by (simp add: n schedule_Cons h1)
  show ?case
  proof (cases "rest = []")
    case True
    with Cons.prems(1) have "schedule ?h1 (replicate n' k) = ?h1"
      by (intro schedule_Finished) simp_all
    with True todo show ?thesis
      by (simp add: unfold increments_def)
  next
    case False
    have "h_db (schedule ?h1 (replicate n' k)) =
           (h_db ?h1)\<lparr>db_chats := (db_chats (h_db ?h1))(t_chatId t' \<mapsto> increments (t_chat t') (t_todo t'))\<rparr> \<and>
         h_states (schedule ?h1 (replicate n' k)) = (h_states ?h1)[k := Finished]"
    proof (rule Cons.hyps(1))
      show "rest = t_todo t'" using t' by simp
      show "k < length (h_states ?h1)" using Cons.prems(1) by simp
      show "h_states ?h1 ! k = Running t'" using Cons.prems(1) False by simp
      show "db_chats (h_db ?h1) (t_chatId t') = Some (t_chat t')" using t' by simp
      show "h_versions ?h1 (t_chatId t') = t_version t'" using t' by simp
      show "t_todo t' \<noteq> []" using t' False by simp
      show "length (t_todo t') \<le> n'" using t' n by simp
    qed
    with t' todo show ?thesis
      by (simp add: unfold increments_Cons)
  qed
qed

text \<open>A handler resumed from its start until its loop ends, with no other handler
  resumed in between.\<close>

lemma waiting_alone:
  assumes "k < length (h_states h)" and "h_states h ! k = Waiting uid cid"
    and "db_chats (h_db h) cid = Some c"
    and "length (participants c) < n"
  shows "h_db (schedule h (replicate n k)) =
           (h_db h)\<lparr>db_chats := (db_chats (h_db h))(cid \<mapsto>
              increments c (filter (\<lambda>p. Some p \<noteq> uid) (participants c)))\<rparr> \<and>
         h_states (schedule h (replicate n k)) = (h_states h)[k := Finished]"
proof -
  let ?todo = "filter (\<lambda>p. Some p \<noteq> uid) (participants c)"
  from assms(4) obtain n' where n: "n = Suc n'" "length (participants c) \<le> n'"
    by (cases n) auto
  have len: "length ?todo \<le> n'"
    using n(2) length_filter_le [of "\<lambda>p. Some p \<noteq> uid" "participants c"] by linarith
  let ?t = "\<lparr>t_chatId = cid, t_chat = c, t_version = h_versions h cid, t_todo = ?todo\<rparr>"
  let ?h1 = "\<lparr>h_db = h_db h, h_versions = h_versions h,
              h_states = (h_states h)[k := if ?todo = [] then Finished else Running ?t]\<rparr>"
  have h1: "resume h k = ?h1"
    using assms(1,2,3) by (simp add: resume_def Let_def)
  have unfold: "schedule h (replicate n k) = schedule ?h1 (replicate n' k)"
    by (simp add: n schedule_Cons h1)
  show ?thesis
  proof (cases "?todo = []")
    case True
    with assms(1) have "schedule ?h1 (replicate n' k) = ?h1"
      by (intro schedule_Finished) simp_all
    moreover have "(h_db h)\<lparr>db_chats := (db_chats (h_db h))(cid \<mapsto> c)\<rparr> = h_db h"
      using assms(3) by (simp add: fun_upd_idem)
    ultimately show ?thesis using True
      by (simp add: unfold increments_def)
  next
    case False
    have "h_db (schedule ?h1 (replicate n' k)) =
           (h_db ?h1)\<lparr>db_chats := (db_chats (h_db ?h1))(t_chatId ?t \<mapsto> increments (t_chat ?t) (t_todo ?t))\<rparr> \<and>
         h_states (schedule ?h1 (replicate n' k)) = (h_states ?h1)[k := Finished]"
    proof (rule running_alone)
      show "k < length (h_states ?h1)" using assms(1) by simp
      show "h_states ?h1 ! k = Running ?t" using assms(1) False by simp
      show "db_chats (h_db ?h1) (t_chatId ?t) = Some (t_chat ?t)" using assms(3) by simp
      show "h_versions ?h1 (t_chatId ?t) = t_version ?t" by simp
      show "t_todo ?t \<noteq> []" using False by simp
      show "length (t_todo ?t) \<le> n'" using len by simp
    qed
    then show ?thesis by (simp add: unfold)
  qed
qed

lemma waiting_alone_absent:
  assumes "k < length (h_states h)" and "h_states h ! k = Waiting uid cid"
    and "db_chats (h_db h) cid = None" and "0 < n"
  shows "h_db (schedule h (replicate n k)) = h_db h \<and>
         h_states (schedule h (replicate n k)) = (h_states h)[k := Finished]"
proof -
  from assms(4) obtain n' where n: "n = Suc n'" by (cases n) auto
  let ?h1 = "\<lparr>h_db = h_db h, h_versions = h_versions h, h_states = (h_states h)[k := Finished]\<rparr>"
  have h1: "resume h k = ?h1"
    using assms(1,2,3) by (simp add: resume_def)
  from assms(1) have "schedule ?h1 (replicate n' k) = ?h1"
    by (intro schedule_Finished) simp_all
  then show ?thesis by (simp add: n schedule_Cons h1)
qed

lemma one_by_one_Cons: "one_by_one n (k # ks) = replicate n k @ one_by_one n ks"
  by (simp add: one_by_one_def)

lemma unread_inv_increments: "unread_inv c \<Longrightarrow> unread_inv (increments c ps)"
  by (induction ps arbitrary: c) (simp_all add: increments_def unread_inv_step)


lemma one_by_one_inv:
  assumes "distinct ks"
    and "\<forall>k \<in> set ks. k < length (h_states h) \<and> (\<exists>uid. h_states h ! k = Waiting uid cid)"
    and "db_chats (h_db h) cid = Some c" and "unread_inv c"
    and "length (participants c) < n"
  shows "\<exists>c'. db_chats (h_db (schedule h (one_by_one n ks))) cid = Some c' \<and> unread_inv c'"
  using assms
proof (induction ks arbitrary: h c)
  case Nil
  then show ?case by (simp add: one_by_one_def schedule_def)
next
  case (Cons k ks)
  from Cons.prems(2) obtain uid where k: "k < length (h_states h)"
    and handler_state: "h_states h ! k = Waiting uid cid"
    by auto
  let ?c1 = "increments c (filter (\<lambda>q. Some q \<noteq> uid) (participants c))"
  let ?h1 = "schedule h (replicate n k)"
  from waiting_alone [OF k handler_state Cons.prems(3,5)]
  have db1: "h_db ?h1 = (h_db h)\<lparr>db_chats := (db_chats (h_db h))(cid \<mapsto> ?c1)\<rparr>"
    and tasks1: "h_states ?h1 = (h_states h)[k := Finished]"
    by simp_all
  have "\<exists>c'. db_chats (h_db (schedule ?h1 (one_by_one n ks))) cid = Some c' \<and> unread_inv c'"
  proof (rule Cons.IH)
    show "distinct ks" using Cons.prems(1) by simp
    show "\<forall>k' \<in> set ks. k' < length (h_states ?h1) \<and> (\<exists>uid. h_states ?h1 ! k' = Waiting uid cid)"
    proof
      fix k' assume k': "k' \<in> set ks"
      with Cons.prems(1) have "k' \<noteq> k" by auto
      with k' Cons.prems(2) show "k' < length (h_states ?h1) \<and>
           (\<exists>uid. h_states ?h1 ! k' = Waiting uid cid)"
        by (simp add: tasks1)
    qed
    show "db_chats (h_db ?h1) cid = Some ?c1" by (simp add: db1)
    show "unread_inv ?c1" using Cons.prems(4) by (rule unread_inv_increments)
    show "length (participants ?c1) < n" using Cons.prems(5) by simp
  qed
  then show ?case
    by (simp add: one_by_one_Cons schedule_append)
qed

lemma start_states:
  "k < length sends \<Longrightarrow> h_states (start d sends) ! k = Waiting (fst (sends ! k)) (snd (sends ! k))"
  by (simp add: start_def split_def)

lemma start_fields [simp]: "h_db (start d sends) = d" "length (h_states (start d sends)) = length sends"
  by (simp_all add: start_def)


lemma sends_one_by_one_inv:
  assumes "list_all (\<lambda>x. snd x = cid) sends"
    and "db_chats d cid = Some c" and "unread_inv c" and "length (participants c) < n"
  shows "\<exists>c'. db_chats (h_db (schedule (start d sends) (one_by_one n [0..<length sends]))) cid = Some c' \<and>
              unread_inv c'"
proof -
  have "\<forall>k \<in> set [0..<length sends]. k < length (h_states (start d sends)) \<and>
           (\<exists>uid. h_states (start d sends) ! k = Waiting uid cid)"
  proof
    fix k assume "k \<in> set [0..<length sends]"
    then have k: "k < length sends" by simp
    with assms(1) have "snd (sends ! k) = cid" by (simp add: list_all_length)
    with k show "k < length (h_states (start d sends)) \<and>
           (\<exists>uid. h_states (start d sends) ! k = Waiting uid cid)"
      by (simp add: start_states)
  qed
  from one_by_one_inv [OF _ this, of c n] assms(2-4) show ?thesis by simp
qed


section \<open>Unread counters after send-message events\<close>




section \<open>The invariant of the unread counters in the store\<close>

text \<open>
  Claim C9 says that the list holds at most one entry per participant for every chat.
  Chat 5 of the sample server satisfies the predicate and has no entry for user 2. Two
  \<^verbatim>\<open>send_message\<close> handlers for it that both load the chat before either saves both
  push an entry for user 2: the stored chat has two entries for user 2.
\<close>

theorem overlapping_sends_duplicate_counterexample:
  "db_chats (store server0) 5 = Some chat5 \<and> unread_inv chat5 \<and>
   map_option unreadCounts
     (db_chats (h_db (schedule (start (store server0) [(Some 1, 5), (Some 1, 5)]) [0, 1, 0, 1])) 5) =
     Some [\<lparr>uc_user = 1, uc_count = 0\<rparr>, \<lparr>uc_user = 2, uc_count = 1\<rparr>,
           \<lparr>uc_user = 2, uc_count = 1\<rparr>] \<and>
   map_option unread_inv
     (db_chats (h_db (schedule (start (store server0) [(Some 1, 5), (Some 1, 5)]) [0, 1, 0, 1])) 5) =
     Some False"
  by (simp add: schedule_def start_def resume_def server0_def chat5_def chat0_def
        updateUnreadCount_def save_def save_chat_def unread_inv_def Let_def)

text \<open>
  Claim C9, amended. The predicate "at most one entry per user, and every count a
  non-negative integer" is preserved by \<^verbatim>\<open>updateUnreadCount\<close> with increment true, by
  \<^verbatim>\<open>updateUnreadCount\<close> with increment false, and by \<^verbatim>\<open>markAsRead\<close>, on the document
  they are called on; so it holds after any sequence of these operations applied one
  after the other to a document that satisfies it, in particular to one that starts
  without entries. A stored chat that satisfies it satisfies it after the
  \<^verbatim>\<open>send_message\<close> handlers of any list of sends for the chat have run one by one. It
  is not claimed for a stored chat on which handlers overlap.
\<close>

theorem unread_inv_preserved:
  "(unread_inv c \<longrightarrow>
      unread_inv (fst (updateUnreadCount c u True)) \<and>
      unread_inv (fst (updateUnreadCount c u False)) \<and>
      unread_inv (fst (markAsRead c u)) \<and>
      unread_inv (foldl apply_unread_op c ops) \<and>
      (db_chats d cid = Some c \<longrightarrow> list_all (\<lambda>x. snd x = cid) sends \<longrightarrow>
         length (participants c) < n \<longrightarrow>
         (\<exists>c'. db_chats (h_db (schedule (start d sends) (one_by_one n [0..<length sends]))) cid = Some c' \<and>
               unread_inv c'))) \<and>
   (unreadCounts c = [] \<longrightarrow> unread_inv (foldl apply_unread_op c ops))"
proof -
  have fresh: "unread_inv c" if "unreadCounts c = []"
    using that by (simp add: unread_inv_def)
  have stored: "\<exists>c'. db_chats (h_db (schedule (start d sends) (one_by_one n [0..<length sends]))) cid = Some c' \<and>
               unread_inv c'"
    if "unread_inv c" "db_chats d cid = Some c" "list_all (\<lambda>x. snd x = cid) sends"
      "length (participants c) < n"
    using that(3,2,1,4) by (rule sends_one_by_one_inv)
  show ?thesis
    using unread_inv_step [of c u] unread_inv_ops [of c ops] fresh stored by blast
qed

theorem unread_inv_preserved_witness:
  "unread_inv chat0 \<and>
   unreadCounts (fst (updateUnreadCount chat0 3 True)) =
     [\<lparr>uc_user = 1, uc_count = 4\<rparr>, \<lparr>uc_user = 2, uc_count = 3\<rparr>, \<lparr>uc_user = 3, uc_count = 1\<rparr>] \<and>
   unread_inv (fst (updateUnreadCount chat0 3 True)) \<and>
   unread_inv (fst (updateUnreadCount chat0 3 False)) \<and>
   unread_inv (fst (markAsRead chat0 3)) \<and>
   unreadCounts (foldl apply_unread_op chat0
       [Update_unread 1 False, Mark_read 2, Update_unread 2 False, Update_unread 3 True]) =
     [\<lparr>uc_user = 1, uc_count = 3\<rparr>, \<lparr>uc_user = 2, uc_count = 0\<rparr>, \<lparr>uc_user = 3, uc_count = 1\<rparr>] \<and>
   unread_inv (foldl apply_unread_op chat0
       [Update_unread 1 False, Mark_read 2, Update_unread 2 False, Update_unread 3 True]) \<and>
   db_chats db0 5 = Some chat0 \<and>
   map_option unreadCounts
     (db_chats (h_db (schedule (start db0 [(Some 1, 5), (None, 5)]) (one_by_one 3 [0, 1]))) 5) =
     Some [\<lparr>uc_user = 1, uc_count = 5\<rparr>, \<lparr>uc_user = 2, uc_count = 5\<rparr>] \<and>
   map_option unread_inv
     (db_chats (h_db (schedule (start db0 [(Some 1, 5), (None, 5)]) (one_by_one 3 [0, 1]))) 5) =
     Some True"
proof -
  let ?sends = "[(Some 1, 5), (None, 5)] :: (objectId option \<times> objectId) list"
  have h: "unread_inv chat0"
    by (simp add: unread_inv_def chat0_def)
  have "unreadCounts (fst (updateUnreadCount chat0 3 True)) =
     [\<lparr>uc_user = 1, uc_count = 4\<rparr>, \<lparr>uc_user = 2, uc_count = 3\<rparr>, \<lparr>uc_user = 3, uc_count = 1\<rparr>]"
    by (simp add: updateUnreadCount_def chat0_def save_def)
  moreover have "unreadCounts (foldl apply_unread_op chat0
       [Update_unread 1 False, Mark_read 2, Update_unread 2 False, Update_unread 3 True]) =
     [\<lparr>uc_user = 1, uc_count = 3\<rparr>, \<lparr>uc_user = 2, uc_count = 0\<rparr>, \<lparr>uc_user = 3, uc_count = 1\<rparr>]"
    by (simp add: updateUnreadCount_def markAsRead_def chat0_def save_def)
  moreover have c: "db_chats db0 5 = Some chat0"
    by (simp add: db0_def)
  moreover have stored: "map_option unreadCounts
     (db_chats (h_db (schedule (start db0 ?sends) (one_by_one 3 [0, 1]))) 5) =
     Some [\<lparr>uc_user = 1, uc_count = 5\<rparr>, \<lparr>uc_user = 2, uc_count = 5\<rparr>]"
    by (simp add: schedule_def start_def resume_def db0_def chat0_def one_by_one_def
          numeral_3_eq_3 updateUnreadCount_def save_def save_chat_def Let_def)
  moreover have l: "list_all (\<lambda>x. snd x = 5) ?sends" "length (participants chat0) < 3"
    by (simp_all add: chat0_def)
  note all = unread_inv_preserved [of chat0 3
        "[Update_unread 1 False, Mark_read 2, Update_unread 2 False, Update_unread 3 True]"
        db0 5 ?sends 3]
  from all h c l obtain c' where
    "db_chats (h_db (schedule (start db0 ?sends) (one_by_one 3 [0..<length ?sends]))) 5 = Some c'"
    "unread_inv c'"
    by blast
  then have "map_option unread_inv
     (db_chats (h_db (schedule (start db0 ?sends) (one_by_one 3 [0, 1]))) 5) = Some True"
    by simp
  moreover from all h have "unread_inv (fst (updateUnreadCount chat0 3 True)) \<and>
      unread_inv (fst (updateUnreadCount chat0 3 False)) \<and>
      unread_inv (fst (markAsRead chat0 3)) \<and>
      unread_inv (foldl apply_unread_op chat0
        [Update_unread 1 False, Mark_read 2, Update_unread 2 False, Update_unread 3 True])"
    by blast
  ultimately show ?thesis
    using h by simp
qed

section \<open>Room fan-out\<close>

lemma outbox_emit_to:
  "outbox (emit_to srv sid P ev) =
     outbox srv @ map (deliver sid ev) (map s_id (filter (\<lambda>r. s_id r \<noteq> sid \<and> P r) (sockets srv)))"
  by (simp add: emit_to_def deliver_def comp_def)

lemma emitted_append: "outbox srv' = outbox srv @ ds \<Longrightarrow> emitted srv srv' = ds"
  by (simp add: emitted_def)

lemma received_deliver:
  "distinct ids \<Longrightarrow> received (map (deliver sid ev) ids) j = (if j \<in> set ids then [ev] else [])"
  by (induction ids) (auto simp: received_def deliver_def)

lemma ids_of_filter:
  assumes "distinct (map s_id socks)" and "r \<in> set socks"
  shows "s_id r \<in> set (map s_id (filter Q socks)) \<longleftrightarrow> Q r"
proof -
  from assms(1) have inj: "inj_on s_id (set socks)"
    by (simp add: distinct_map)
  show ?thesis
  proof
    assume "s_id r \<in> set (map s_id (filter Q socks))"
    then obtain r' where r': "r' \<in> set socks" "Q r'" "s_id r' = s_id r" by auto
    with inj assms(2) have "r' = r" by (auto dest: inj_onD)
    with r' show "Q r" by simp
  next
    assume "Q r"
    with assms(2) show "s_id r \<in> set (map s_id (filter Q socks))" by auto
  qed
qed

lemma outbox_on_send_message:
  "outbox (on_send_message srv s (Some (cid, msg))) =
     outbox (to_room_emit srv (s_id s) (Chat_room cid) (New_message cid msg))"
  by (simp add: on_send_message_def Let_def split: option.splits)

lemma find_s_id:
  "find (\<lambda>r. s_id r = sid) socks = Some s \<Longrightarrow> s \<in> set socks \<and> s_id s = sid"
  by (induction socks) (auto split: if_splits)

text \<open>
  Claim C8. With unique socket ids, a \<^verbatim>\<open>send_message\<close> of a connected session delivers
  to every connected session that joined the room of the chat, other than the sending
  one, exactly the one \<^verbatim>\<open>new_message\<close> event, and delivers nothing to the sending
  session (nor to a session outside the room).
\<close>

theorem new_message_fan_out:
  assumes "wf_server srv" and "find (\<lambda>r. s_id r = sid) (sockets srv) = Some s"
  shows "\<forall>r \<in> set (sockets srv).
           received (emitted srv (step jwt srv (sid, now, Send_message (Some (cid, msg))))) (s_id r) =
             (if s_id r \<noteq> sid \<and> Chat_room cid \<in> rooms r then [New_message cid msg] else [])"
proof
  fix r
  assume r: "r \<in> set (sockets srv)"
  let ?Q = "\<lambda>r. s_id r \<noteq> sid \<and> Chat_room cid \<in> rooms r"
  let ?ids = "map s_id (filter ?Q (sockets srv))"
  from find_s_id [OF assms(2)] have sid: "s_id s = sid" by simp
  have "outbox (step jwt srv (sid, now, Send_message (Some (cid, msg)))) =
          outbox srv @ map (deliver sid (New_message cid msg)) ?ids"
    by (simp add: step_send_message [OF assms(2)] outbox_on_send_message to_room_emit_def
          outbox_emit_to sid)
  then have em: "emitted srv (step jwt srv (sid, now, Send_message (Some (cid, msg)))) =
          map (deliver sid (New_message cid msg)) ?ids"
    by (rule emitted_append)
  from assms(1) have d: "distinct (map s_id (sockets srv))"
    by (simp add: wf_server_def)
  then have "distinct ?ids" by (rule distinct_map_filter)
  from received_deliver [OF this, of sid "New_message cid msg" "s_id r"] ids_of_filter [OF d r, of ?Q]
  show "received (emitted srv (step jwt srv (sid, now, Send_message (Some (cid, msg))))) (s_id r) =
             (if s_id r \<noteq> sid \<and> Chat_room cid \<in> rooms r then [New_message cid msg] else [])"
    by (simp add: em)
qed

lemma server0_wf: "wf_server server0"
  by (simp add: wf_server_def server0_def)

theorem new_message_fan_out_witness:
  "wf_server server0 \<and>
   map s_id (sockets server0) = [10, 20, 30] \<and>
   map rooms (sockets server0) = [{User_room 1, Chat_room 5}, {Chat_room 5}, {}] \<and>
   received (emitted server0 (step jwt0 server0 (10, 7, Send_message (Some (5, ''hi''))))) 20 = [New_message 5 ''hi''] \<and>
   received (emitted server0 (step jwt0 server0 (10, 7, Send_message (Some (5, ''hi''))))) 10 = [] \<and>
   received (emitted server0 (step jwt0 server0 (10, 7, Send_message (Some (5, ''hi''))))) 30 = []"
proof -
  let ?s10 = "\<lparr>s_id = 10, userId = Some 1, s_user = Some \<lparr>u_status = Online, u_lastSeen = 0\<rparr>,
          rooms = {User_room 1, Chat_room 5}\<rparr>"
  have f10: "find (\<lambda>r. s_id r = 10) (sockets server0) = Some ?s10"
    by (simp add: server0_def)
  have socks: "map s_id (sockets server0) = [10, 20, 30]"
    "map rooms (sockets server0) = [{User_room 1, Chat_room 5}, {Chat_room 5}, {}]"
    by (simp_all add: server0_def)
  from new_message_fan_out [OF server0_wf f10, of jwt0 7 5 "''hi''"] server0_wf socks
  show ?thesis by (simp add: server0_def)
qed

section \<open>Presence broadcasts\<close>

lemma update_socket_fields [simp]:
  "outbox (update_socket srv sid f) = outbox srv"
  "store (update_socket srv sid f) = store srv"
  "connectedUsers (update_socket srv sid f) = connectedUsers srv"
  "connectionCount (update_socket srv sid f) = connectionCount srv"
  by (simp_all add: update_socket_def)

lemma update_socket_ids:
  "(\<And>r. s_id (f r) = s_id r) \<Longrightarrow> map s_id (sockets (update_socket srv sid f)) = map s_id (sockets srv)"
  by (simp add: update_socket_def comp_def cong: map_cong)

lemma outbox_broadcast_emit:
  "outbox (broadcast_emit srv sid ev) =
     outbox srv @ map (deliver sid ev) (filter (\<lambda>i. i \<noteq> sid) (map s_id (sockets srv)))"
  by (simp add: broadcast_emit_def outbox_emit_to filter_map comp_def)

lemma outbox_on_authenticate:
  assumes "jwt token = Some uid" and "db_users (store srv) uid = Some u"
  shows "outbox (on_authenticate jwt now srv sid token) =
     outbox srv @ map (deliver sid (User_status_change uid Online))
                    (filter (\<lambda>i. i \<noteq> sid) (map s_id (sockets srv)))"
proof -
  let ?srv1 = "update_socket srv sid (\<lambda>r. r\<lparr>userId := Some uid, s_user := Some u\<rparr>)"
  let ?srv3 = "?srv1\<lparr>connectedUsers := (connectedUsers ?srv1)(uid \<mapsto> sid),
                    store := User_findByIdAndUpdate (store ?srv1) uid Online now\<rparr>"
  let ?srv4 = "update_socket ?srv3 sid (\<lambda>r. r\<lparr>rooms := insert (User_room uid) (rooms r)\<rparr>)"
  have "map s_id (sockets ?srv4) = map s_id (sockets ?srv3)"
    by (rule update_socket_ids) simp
  also have "\<dots> = map s_id (sockets ?srv1)" by simp
  also have "\<dots> = map s_id (sockets srv)"
    by (rule update_socket_ids) simp
  finally have ids: "map s_id (sockets ?srv4) = map s_id (sockets srv)" .
  have "on_authenticate jwt now srv sid token = broadcast_emit ?srv4 sid (User_status_change uid Online)"
    using assms by (simp add: on_authenticate_def Let_def)
  then show ?thesis using ids
    by (simp add: outbox_broadcast_emit)
qed

lemma on_authenticate_fails:
  "\<not> auth_succeeds jwt srv token \<Longrightarrow> on_authenticate jwt now srv sid token = srv"
  by (auto simp: auth_succeeds_def on_authenticate_def split: option.splits)

lemma outbox_on_disconnect:
  "outbox (on_disconnect now srv s) =
     (case userId s of
        None \<Rightarrow> outbox srv
      | Some uid \<Rightarrow> outbox srv @ map (deliver (s_id s) (User_status_change uid Offline))
                     (filter (\<lambda>i. i \<noteq> s_id s) (map s_id (sockets srv))))"
proof (cases "userId s")
  case None
  then show ?thesis by (simp add: on_disconnect_def)
next
  case (Some uid)
  have "filter (\<lambda>i. i \<noteq> s_id s) (map s_id (filter (\<lambda>r. s_id r \<noteq> s_id s) (sockets srv)))
          = filter (\<lambda>i. i \<noteq> s_id s) (map s_id (sockets srv))"
    by (induction "sockets srv") (auto simp: filter_map comp_def)
  with Some show ?thesis
    by (simp add: on_disconnect_def Let_def outbox_broadcast_emit)
qed

lemma received_others:
  assumes "distinct (map s_id socks)" and "r \<in> set socks"
  shows "received (map (deliver sid ev) (filter (\<lambda>i. i \<noteq> sid) (map s_id socks))) (s_id r) =
           (if s_id r = sid then [] else [ev])"
proof -
  from assms(1) have "distinct (filter (\<lambda>i. i \<noteq> sid) (map s_id socks))" by simp
  from received_deliver [OF this, of sid ev "s_id r"] assms(2) show ?thesis by auto
qed

lemma deliver_fields [simp]:
  "origin (deliver sid ev i) = sid" "recipient (deliver sid ev i) = i" "payload (deliver sid ev i) = ev"
  by (simp_all add: deliver_def)

lemma outbox_step_quiet:
  assumes "find (\<lambda>r. s_id r = sid) (sockets srv) = Some s"
    and "case ev of Authenticate token \<Rightarrow> \<not> auth_succeeds jwt srv token
         | Disconnect \<Rightarrow> userId s = None | _ \<Rightarrow> True"
  shows "\<exists>ds. outbox (step jwt srv (sid, now, ev)) = outbox srv @ ds \<and>
              filter (\<lambda>d. is_status_change (payload d)) ds = []"
proof (cases ev)
  case Connection
  with assms show ?thesis by (simp add: step_def)
next
  case (Authenticate token)
  with assms show ?thesis by (simp add: step_def on_authenticate_fails)
next
  case (Join_chat cid)
  with assms show ?thesis by (simp add: step_def on_join_chat_def)
next
  case (Leave_chat cid)
  with assms show ?thesis by (simp add: step_def on_leave_chat_def)
next
  case (Send_message data)
  show ?thesis
  proof (cases data)
    case None
    with Send_message assms show ?thesis by (simp add: step_def on_send_message_def)
  next
    case (Some a)
    obtain cid msg where "a = (cid, msg)" by (cases a)
    with Some Send_message assms show ?thesis
      by (simp add: step_def outbox_on_send_message to_room_emit_def outbox_emit_to filter_empty_conv)
  qed
next
  case (Typing_start cid)
  with assms show ?thesis
    by (simp add: step_def on_typing_def to_room_emit_def outbox_emit_to filter_empty_conv)
next
  case (Typing_stop cid)
  with assms show ?thesis
    by (simp add: step_def on_typing_def to_room_emit_def outbox_emit_to filter_empty_conv)
next
  case Disconnect
  with assms show ?thesis by (simp add: step_def outbox_on_disconnect)
qed

lemma sockets_on_authenticate:
  assumes "jwt token = Some uid" and "db_users (store srv) uid = Some u"
  shows "sockets (on_authenticate jwt now srv sid token) =
     map (\<lambda>r. if s_id r = sid
               then r\<lparr>userId := Some uid, s_user := Some u,
                       rooms := insert (User_room uid) (rooms r)\<rparr>
               else r) (sockets srv)"
  using assms
  by (simp add: on_authenticate_def Let_def broadcast_emit_def update_socket_def comp_def)

lemma sockets_on_disconnect:
  "sockets (on_disconnect now srv s) = filter (\<lambda>r. s_id r \<noteq> s_id s) (sockets srv)"
  by (simp add: on_disconnect_def Let_def broadcast_emit_def split: option.splits)

lemma status_changes_of_other:
  "sid' \<noteq> sid \<Longrightarrow> status_changes_of sid (map (deliver sid' ev) ids) = []"
  by (simp add: status_changes_of_def filter_empty_conv)

lemma step_keeps_unauthenticated:
  assumes inv: "\<forall>r \<in> set (sockets srv). s_id r = sid \<longrightarrow> userId r = None"
    and no: "\<not> authenticates jwt srv sid x"
  shows "(\<forall>r \<in> set (sockets (step jwt srv x)). s_id r = sid \<longrightarrow> userId r = None) \<and>
         (\<exists>ds. outbox (step jwt srv x) = outbox srv @ ds \<and> status_changes_of sid ds = [])"
proof -
  obtain sid' now ev where x: "x = (sid', now, ev)" by (cases x)
  show ?thesis
  proof (cases "find (\<lambda>r. s_id r = sid') (sockets srv)")
    case None
    with inv show ?thesis
      by (cases ev) (simp_all add: x step_def on_connection_def status_changes_of_def)
  next
    case (Some s)
    from find_s_id [OF Some] have s: "s \<in> set (sockets srv)" "s_id s = sid'" by simp_all
    show ?thesis
    proof (cases ev)
      case Connection
      with Some inv show ?thesis by (simp add: x step_def status_changes_of_def)
    next
      case (Authenticate token)
      show ?thesis
      proof (cases "auth_succeeds jwt srv token")
        case False
        with Some inv Authenticate show ?thesis
          by (simp add: x step_def on_authenticate_fails status_changes_of_def)
      next
        case True
        then obtain uid u where ok: "jwt token = Some uid" "db_users (store srv) uid = Some u"
          by (auto simp: auth_succeeds_def split: option.splits)
        from True no have "sid' \<noteq> sid" by (auto simp: x Authenticate)
        with Some inv Authenticate show ?thesis
          by (auto simp: x step_def sockets_on_authenticate [where jwt = jwt and token = token, OF ok]
                outbox_on_authenticate [where jwt = jwt and token = token, OF ok]
                status_changes_of_other)
      qed
    next
      case (Join_chat cid)
      with Some inv show ?thesis
        by (auto simp: x step_def on_join_chat_def update_socket_def status_changes_of_def)
    next
      case (Leave_chat cid)
      with Some inv show ?thesis
        by (auto simp: x step_def on_leave_chat_def update_socket_def status_changes_of_def)
    next
      case (Send_message data)
      show ?thesis
      proof (cases data)
        case None
        with Some inv Send_message show ?thesis
          by (simp add: x step_def on_send_message_def status_changes_of_def)
      next
        case (Some a)
        obtain cid msg where "a = (cid, msg)" by (cases a)
        with Some \<open>find (\<lambda>r. s_id r = sid') (sockets srv) = Some s\<close> inv Send_message show ?thesis
          by (simp add: x step_def outbox_on_send_message to_room_emit_def outbox_emit_to
                status_changes_of_def filter_empty_conv)
      qed
    next
      case (Typing_start cid)
      with Some inv show ?thesis
        by (simp add: x step_def on_typing_def to_room_emit_def outbox_emit_to
              status_changes_of_def filter_empty_conv)
    next
      case (Typing_stop cid)
      with Some inv show ?thesis
        by (simp add: x step_def on_typing_def to_room_emit_def outbox_emit_to
              status_changes_of_def filter_empty_conv)
    next
      case Disconnect
      show ?thesis
      proof (cases "sid' = sid")
        case True
        with s inv have "userId s = None" by simp
        with Some inv Disconnect show ?thesis
          by (simp add: x step_def sockets_on_disconnect outbox_on_disconnect status_changes_of_def)
      next
        case False
        with Some inv Disconnect s show ?thesis
          by (auto simp: x step_def sockets_on_disconnect outbox_on_disconnect
                status_changes_of_other status_changes_of_def split: option.splits)
      qed
    qed
  qed
qed

lemma status_changes_of_append [simp]:
  "status_changes_of sid (xs @ ys) = status_changes_of sid xs @ status_changes_of sid ys"
  by (simp add: status_changes_of_def)

lemma never_authenticated_run:
  assumes "\<forall>r \<in> set (sockets srv). s_id r = sid \<longrightarrow> userId r = None"
    and "never_authenticates jwt srv sid xs"
  shows "\<exists>ds. outbox (run jwt srv xs) = outbox srv @ ds \<and> status_changes_of sid ds = []"
  using assms
proof (induction xs arbitrary: srv)
  case Nil
  then show ?case by (simp add: run_def status_changes_of_def)
next
  case (Cons x xs)
  from Cons.prems(2) have no: "\<not> authenticates jwt srv sid x"
    and rest: "never_authenticates jwt (step jwt srv x) sid xs"
    by simp_all
  from step_keeps_unauthenticated [OF Cons.prems(1) no] obtain ds where
    inv1: "\<forall>r \<in> set (sockets (step jwt srv x)). s_id r = sid \<longrightarrow> userId r = None"
    and ds: "outbox (step jwt srv x) = outbox srv @ ds" "status_changes_of sid ds = []"
    by blast
  from Cons.IH [OF inv1 rest] obtain ds' where
    "outbox (run jwt (step jwt srv x) xs) = outbox (step jwt srv x) @ ds'"
    "status_changes_of sid ds' = []"
    by blast
  with ds have "outbox (run jwt srv (x # xs)) = outbox srv @ (ds @ ds') \<and>
                status_changes_of sid (ds @ ds') = []"
    by (simp add: run_def)
  then show ?case by blast
qed

lemma find_map_same_id:
  assumes "\<And>r. s_id (g r) = s_id r"
  shows "find (\<lambda>r. s_id r = sid) (map g socks) = map_option g (find (\<lambda>r. s_id r = sid) socks)"
  using assms by (induction socks) simp_all

lemma map_same_ids:
  assumes "\<And>r. s_id (g r) = s_id r"
  shows "map s_id (map g socks) = map s_id socks"
  using assms by (induction socks) simp_all

lemma find_filter_keep:
  assumes "\<And>r. P r \<Longrightarrow> Q r"
  shows "find P (filter Q xs) = find P xs"
  using assms by (induction xs) auto

lemma find_None_ids: "find (\<lambda>r. s_id r = sid) socks = None \<Longrightarrow> sid \<notin> set (map s_id socks)"
  by (auto simp: find_None_iff_set)

lemma find_append_hit: "find P xs = Some x \<Longrightarrow> find P (xs @ ys) = Some x"
  by (induction xs) (auto split: if_splits)

lemma step_keeps_authenticated:
  assumes wf: "wf_server srv"
    and s: "find (\<lambda>r. s_id r = sid) (sockets srv) = Some s" and u: "userId s \<noteq> None"
    and stay: "\<not> disconnects sid x"
  shows "wf_server (step jwt srv x) \<and>
         (\<exists>s'. find (\<lambda>r. s_id r = sid) (sockets (step jwt srv x)) = Some s' \<and> userId s' \<noteq> None)"
proof -
  obtain sid' now ev where x: "x = (sid', now, ev)" by (cases x)
  from wf have d: "distinct (map s_id (sockets srv))" by (simp add: wf_server_def)
  show ?thesis
  proof (cases "find (\<lambda>r. s_id r = sid') (sockets srv)")
    case None
    from find_None_ids [OF None] have fresh: "sid' \<notin> set (map s_id (sockets srv))" .
    show ?thesis
    proof (cases ev)
      case Connection
      with None fresh d s u show ?thesis
        by (simp add: x step_def on_connection_def wf_server_def find_append_hit)
    qed (use None wf s u in \<open>simp_all add: x step_def\<close>)
  next
    case (Some s'')
    show ?thesis
    proof (cases ev)
      case Connection
      with Some wf s u show ?thesis by (simp add: x step_def)
    next
      case (Authenticate token)
      show ?thesis
      proof (cases "auth_succeeds jwt srv token")
        case False
        with Some wf s u Authenticate show ?thesis
          by (simp add: x step_def on_authenticate_fails)
      next
        case True
        then obtain uid usr where ok: "jwt token = Some uid" "db_users (store srv) uid = Some usr"
          by (auto simp: auth_succeeds_def split: option.splits)
        let ?g = "\<lambda>r. if s_id r = sid'
               then r\<lparr>userId := Some uid, s_user := Some usr,
                       rooms := insert (User_room uid) (rooms r)\<rparr>
               else r"
        have socks: "sockets (step jwt srv x) = map ?g (sockets srv)"
          using Some Authenticate
          by (simp add: x step_def sockets_on_authenticate [where jwt = jwt and token = token, OF ok])
        have g: "s_id (?g r) = s_id r" for r by simp
        have "map s_id (map ?g (sockets srv)) = map s_id (sockets srv)"
          by (rule map_same_ids) simp
        with d have "wf_server (step jwt srv x)" by (simp only: wf_server_def socks)
        moreover have "find (\<lambda>r. s_id r = sid) (sockets (step jwt srv x)) = Some (?g s)"
          unfolding socks using find_map_same_id [of ?g sid "sockets srv"] s by simp
        moreover from u have "userId (?g s) \<noteq> None" by simp
        ultimately show ?thesis by blast
      qed
    next
      case (Join_chat cid)
      let ?g = "\<lambda>r. if s_id r = sid' then r\<lparr>rooms := insert (Chat_room cid) (rooms r)\<rparr> else r"
      have socks: "sockets (step jwt srv x) = map ?g (sockets srv)"
        using Some Join_chat by (simp add: x step_def on_join_chat_def update_socket_def)
      have "map s_id (map ?g (sockets srv)) = map s_id (sockets srv)"
        by (rule map_same_ids) simp
      with d have "wf_server (step jwt srv x)" by (simp only: wf_server_def socks)
      moreover have "find (\<lambda>r. s_id r = sid) (sockets (step jwt srv x)) = Some (?g s)"
        unfolding socks using find_map_same_id [of ?g sid "sockets srv"] s by simp
      moreover from u have "userId (?g s) \<noteq> None" by simp
      ultimately show ?thesis by blast
    next
      case (Leave_chat cid)
      let ?g = "\<lambda>r. if s_id r = sid' then r\<lparr>rooms := rooms r - {Chat_room cid}\<rparr> else r"
      have socks: "sockets (step jwt srv x) = map ?g (sockets srv)"
        using Some Leave_chat by (simp add: x step_def on_leave_chat_def update_socket_def)
      have "map s_id (map ?g (sockets srv)) = map s_id (sockets srv)"
        by (rule map_same_ids) simp
      with d have "wf_server (step jwt srv x)" by (simp only: wf_server_def socks)
      moreover have "find (\<lambda>r. s_id r = sid) (sockets (step jwt srv x)) = Some (?g s)"
        unfolding socks using find_map_same_id [of ?g sid "sockets srv"] s by simp
      moreover from u have "userId (?g s) \<noteq> None" by simp
      ultimately show ?thesis by blast
    next
      case (Send_message data)
      with Some wf s u show ?thesis
        by (simp add: x step_def wf_server_def)
    next
      case (Typing_start cid)
      with Some wf s u show ?thesis
        by (simp add: x step_def wf_server_def on_typing_def to_room_emit_def)
    next
      case (Typing_stop cid)
      with Some wf s u show ?thesis
        by (simp add: x step_def wf_server_def on_typing_def to_room_emit_def)
    next
      case Disconnect
      with stay have ne: "sid' \<noteq> sid" by (simp add: x)
      from find_s_id [OF Some] have s'': "s_id s'' = sid'" by simp
      have socks: "sockets (step jwt srv x) = filter (\<lambda>r. s_id r \<noteq> sid') (sockets srv)"
        using Some Disconnect s'' by (simp add: x step_def sockets_on_disconnect)
      from d have "wf_server (step jwt srv x)"
        by (simp add: wf_server_def socks distinct_map_filter)
      moreover have "find (\<lambda>r. s_id r = sid) (sockets (step jwt srv x)) = Some s"
        unfolding socks using find_filter_keep [of "\<lambda>r. s_id r = sid" "\<lambda>r. s_id r \<noteq> sid'" "sockets srv"] ne s
        by auto
      ultimately show ?thesis using u by blast
    qed
  qed
qed

lemma run_keeps_authenticated:
  assumes "wf_server srv"
    and "find (\<lambda>r. s_id r = sid) (sockets srv) = Some s" and "userId s \<noteq> None"
    and "list_all (\<lambda>x. \<not> disconnects sid x) xs"
  shows "wf_server (run jwt srv xs) \<and>
         (\<exists>s'. find (\<lambda>r. s_id r = sid) (sockets (run jwt srv xs)) = Some s' \<and> userId s' \<noteq> None)"
  using assms
proof (induction xs arbitrary: srv s)
  case Nil
  then show ?case by (simp add: run_def)
next
  case (Cons x xs)
  from Cons.prems(4) have x: "\<not> disconnects sid x" and xs: "list_all (\<lambda>x. \<not> disconnects sid x) xs"
    by simp_all
  from step_keeps_authenticated [OF Cons.prems(1,2,3) x, of jwt] obtain s1 where
    "wf_server (step jwt srv x)" "find (\<lambda>r. s_id r = sid) (sockets (step jwt srv x)) = Some s1"
    "userId s1 \<noteq> None"
    by blast
  from Cons.IH [OF this xs] show ?case by (simp add: run_def)
qed

lemma authenticate_sets_userId:
  assumes "find (\<lambda>r. s_id r = sid) (sockets srv) = Some s"
    and "jwt token = Some uid" and "db_users (store srv) uid \<noteq> None"
  shows "map_option userId (find (\<lambda>r. s_id r = sid) (sockets (step jwt srv (sid, now, Authenticate token))))
           = Some (Some uid)"
proof -
  from assms(3) obtain usr where usr: "db_users (store srv) uid = Some usr" by auto
  let ?g = "\<lambda>r. if s_id r = sid
               then r\<lparr>userId := Some uid, s_user := Some usr,
                       rooms := insert (User_room uid) (rooms r)\<rparr>
               else r"
  from find_s_id [OF assms(1)] have sid: "s_id s = sid" by simp
  have socks: "sockets (step jwt srv (sid, now, Authenticate token)) = map ?g (sockets srv)"
    using assms(1)
    by (simp add: step_def sockets_on_authenticate [where jwt = jwt and token = token, OF assms(2) usr])
  have "find (\<lambda>r. s_id r = sid) (map ?g (sockets srv)) = Some (?g s)"
    using find_map_same_id [of ?g sid "sockets srv"] assms(1) by simp
  with sid show ?thesis by (simp add: socks)
qed

lemma authenticate_broadcast:
  assumes "wf_server srv" and "find (\<lambda>r. s_id r = sid) (sockets srv) = Some s"
    and "jwt token = Some uid" and "db_users (store srv) uid \<noteq> None"
    and "r \<in> set (sockets srv)"
  shows "received (emitted srv (step jwt srv (sid, now, Authenticate token))) (s_id r) =
            (if s_id r = sid then [] else [User_status_change uid Online])"
proof -
  from assms(1) have d: "distinct (map s_id (sockets srv))"
    by (simp add: wf_server_def)
  from assms(4) obtain u where u: "db_users (store srv) uid = Some u" by auto
  from assms(2) have "step jwt srv (sid, now, Authenticate token) = on_authenticate jwt now srv sid token"
    by (simp add: step_def)
  with outbox_on_authenticate [where jwt = jwt and token = token, OF assms(3) u, of now sid]
  have "emitted srv (step jwt srv (sid, now, Authenticate token)) =
          map (deliver sid (User_status_change uid Online)) (filter (\<lambda>i. i \<noteq> sid) (map s_id (sockets srv)))"
    by (simp add: emitted_append)
  with received_others [OF d assms(5)] show ?thesis by simp
qed

lemma disconnect_broadcast:
  assumes "wf_server srv" and "find (\<lambda>r. s_id r = sid) (sockets srv) = Some s"
    and "userId s = Some uid" and "r \<in> set (sockets srv)"
  shows "received (emitted srv (step jwt srv (sid, now, Disconnect))) (s_id r) =
            (if s_id r = sid then [] else [User_status_change uid Offline])"
proof -
  from assms(1) have d: "distinct (map s_id (sockets srv))"
    by (simp add: wf_server_def)
  from find_s_id [OF assms(2)] have sid: "s_id s = sid" by simp
  from assms(2) have "step jwt srv (sid, now, Disconnect) = on_disconnect now srv s"
    by (simp add: step_def)
  with outbox_on_disconnect [of now srv s] assms(3) sid
  have "emitted srv (step jwt srv (sid, now, Disconnect)) =
          map (deliver sid (User_status_change uid Offline)) (filter (\<lambda>i. i \<noteq> sid) (map s_id (sockets srv)))"
    by (simp add: emitted_append)
  with received_others [OF d assms(4)] show ?thesis by simp
qed

lemma quiet_events:
  assumes "find (\<lambda>r. s_id r = sid) (sockets srv) = Some s"
    and "case ev of Authenticate token \<Rightarrow> \<not> auth_succeeds jwt srv token
                  | Disconnect \<Rightarrow> userId s = None | _ \<Rightarrow> True"
  shows "filter (\<lambda>d. is_status_change (payload d)) (emitted srv (step jwt srv (sid, now, ev))) = []"
proof -
  from outbox_step_quiet [OF assms] obtain ds where
    "outbox (step jwt srv (sid, now, ev)) = outbox srv @ ds"
    "filter (\<lambda>d. is_status_change (payload d)) ds = []"
    by blast
  then show ?thesis by (simp add: emitted_append)
qed

lemma never_authenticated_quiet:
  assumes "\<forall>r \<in> set (sockets srv). s_id r = sid \<longrightarrow> userId r = None"
    and "never_authenticates jwt srv sid xs"
  shows "status_changes_of sid (emitted srv (run jwt srv xs)) = []"
proof -
  from never_authenticated_run [OF assms] obtain ds where
    "outbox (run jwt srv xs) = outbox srv @ ds" "status_changes_of sid ds = []"
    by blast
  then show ?thesis by (simp add: emitted_append)
qed

lemma authenticated_until_disconnect:
  assumes "wf_server srv" and "find (\<lambda>r. s_id r = sid) (sockets srv) = Some s"
    and "userId s \<noteq> None" and "list_all (\<lambda>x. \<not> disconnects sid x) ys"
  shows "\<exists>uid. \<forall>r \<in> set (sockets (run jwt srv ys)).
           received (emitted (run jwt srv ys) (step jwt (run jwt srv ys) (sid, now, Disconnect))) (s_id r) =
             (if s_id r = sid then [] else [User_status_change uid Offline])"
proof -
  from run_keeps_authenticated [OF assms, of jwt] obtain s' uid where
    wf: "wf_server (run jwt srv ys)"
    and s': "find (\<lambda>r. s_id r = sid) (sockets (run jwt srv ys)) = Some s'"
    and uid: "userId s' = Some uid"
    by auto
  from disconnect_broadcast [OF wf s' uid] show ?thesis by blast
qed

text \<open>
  Claim C4. Handlers run one after the other and the writes of the persistence layer
  succeed. With unique socket ids, for a connected session \<open>sid\<close>:
  \<^item> a successful authentication delivers to every other connected session exactly one
    \<^verbatim>\<open>user_status_change\<close> with status online and none to the session itself, and
    sets its \<open>userId\<close>;
  \<^item> the disconnect of a session whose \<open>userId\<close> is set delivers to every other
    connected session exactly one \<^verbatim>\<open>user_status_change\<close> with status offline;
  \<^item> a session whose \<open>userId\<close> is set keeps it through any run \<open>ys\<close> of events
    without its own disconnect, so its disconnect after the run delivers the one offline
    event to every other session connected then;
  \<^item> every other event (a failed authentication, a disconnect without \<open>userId\<close>,
    joins, leaves, sends, typing) emits no \<^verbatim>\<open>user_status_change\<close>;
  \<^item> a session that never authenticates emits none during any run \<open>xs\<close> of events,
    its own and those of other sessions.
\<close>

theorem presence_broadcasts:
  assumes "wf_server srv"
  shows
  "(\<forall>s token uid. find (\<lambda>r. s_id r = sid) (sockets srv) = Some s \<longrightarrow>
       jwt token = Some uid \<longrightarrow> db_users (store srv) uid \<noteq> None \<longrightarrow>
       (\<forall>r \<in> set (sockets srv).
          received (emitted srv (step jwt srv (sid, now, Authenticate token))) (s_id r) =
            (if s_id r = sid then [] else [User_status_change uid Online])) \<and>
       map_option userId (find (\<lambda>r. s_id r = sid)
          (sockets (step jwt srv (sid, now, Authenticate token)))) = Some (Some uid)) \<and>
   (\<forall>s uid. find (\<lambda>r. s_id r = sid) (sockets srv) = Some s \<longrightarrow> userId s = Some uid \<longrightarrow>
       (\<forall>r \<in> set (sockets srv).
          received (emitted srv (step jwt srv (sid, now, Disconnect))) (s_id r) =
            (if s_id r = sid then [] else [User_status_change uid Offline]))) \<and>
   (\<forall>s. find (\<lambda>r. s_id r = sid) (sockets srv) = Some s \<longrightarrow> userId s \<noteq> None \<longrightarrow>
       list_all (\<lambda>x. \<not> disconnects sid x) ys \<longrightarrow>
       (\<exists>uid. \<forall>r \<in> set (sockets (run jwt srv ys)).
          received (emitted (run jwt srv ys) (step jwt (run jwt srv ys) (sid, now, Disconnect))) (s_id r) =
            (if s_id r = sid then [] else [User_status_change uid Offline]))) \<and>
   (\<forall>s ev. find (\<lambda>r. s_id r = sid) (sockets srv) = Some s \<longrightarrow>
       (case ev of Authenticate token \<Rightarrow> \<not> auth_succeeds jwt srv token
        | Disconnect \<Rightarrow> userId s = None | _ \<Rightarrow> True) \<longrightarrow>
       filter (\<lambda>d. is_status_change (payload d)) (emitted srv (step jwt srv (sid, now, ev))) = []) \<and>
   ((\<forall>r \<in> set (sockets srv). s_id r = sid \<longrightarrow> userId r = None) \<longrightarrow>
       never_authenticates jwt srv sid xs \<longrightarrow>
       status_changes_of sid (emitted srv (run jwt srv xs)) = [])"
proof -
  have a: "received (emitted srv (step jwt srv (sid, now, Authenticate token))) (s_id r) =
            (if s_id r = sid then [] else [User_status_change uid Online])"
    if "find (\<lambda>r. s_id r = sid) (sockets srv) = Some s" "jwt token = Some uid"
      "db_users (store srv) uid \<noteq> None" "r \<in> set (sockets srv)" for s token uid r
    using assms that by (rule authenticate_broadcast)
  have a': "map_option userId (find (\<lambda>r. s_id r = sid)
          (sockets (step jwt srv (sid, now, Authenticate token)))) = Some (Some uid)"
    if "find (\<lambda>r. s_id r = sid) (sockets srv) = Some s" "jwt token = Some uid"
      "db_users (store srv) uid \<noteq> None" for s token uid
    using that by (rule authenticate_sets_userId)
  have b: "received (emitted srv (step jwt srv (sid, now, Disconnect))) (s_id r) =
            (if s_id r = sid then [] else [User_status_change uid Offline])"
    if "find (\<lambda>r. s_id r = sid) (sockets srv) = Some s" "userId s = Some uid"
      "r \<in> set (sockets srv)" for s uid r
    using assms that by (rule disconnect_broadcast)
  have b': "\<exists>uid. \<forall>r \<in> set (sockets (run jwt srv ys)).
          received (emitted (run jwt srv ys) (step jwt (run jwt srv ys) (sid, now, Disconnect))) (s_id r) =
            (if s_id r = sid then [] else [User_status_change uid Offline])"
    if "find (\<lambda>r. s_id r = sid) (sockets srv) = Some s" "userId s \<noteq> None"
      "list_all (\<lambda>x. \<not> disconnects sid x) ys" for s
    using assms that by (rule authenticated_until_disconnect)
  have c: "filter (\<lambda>d. is_status_change (payload d)) (emitted srv (step jwt srv (sid, now, ev))) = []"
    if "find (\<lambda>r. s_id r = sid) (sockets srv) = Some s"
      "case ev of Authenticate token \<Rightarrow> \<not> auth_succeeds jwt srv token
        | Disconnect \<Rightarrow> userId s = None | _ \<Rightarrow> True" for s ev
    using that by (rule quiet_events)
  have e: "status_changes_of sid (emitted srv (run jwt srv xs)) = []"
    if "\<forall>r \<in> set (sockets srv). s_id r = sid \<longrightarrow> userId r = None"
      "never_authenticates jwt srv sid xs"
    using that by (rule never_authenticated_quiet)
  from a a' b b' c e show ?thesis by blast
qed

theorem presence_broadcasts_witness:
  "wf_server server0 \<and>
   jwt0 ''t2'' = Some 2 \<and>
   received (emitted server0 (step jwt0 server0 (20, 7, Authenticate ''t2''))) 10 = [User_status_change 2 Online] \<and>
   received (emitted server0 (step jwt0 server0 (20, 7, Authenticate ''t2''))) 20 = [] \<and>
   received (emitted server0 (step jwt0 server0 (10, 8, Disconnect))) 20 = [User_status_change 1 Offline] \<and>
   received (emitted server0 (step jwt0 server0 (10, 8, Disconnect))) 30 = [User_status_change 1 Offline] \<and>
   list_all (\<lambda>x. \<not> disconnects 10 x) trace20 \<and>
   map s_id (sockets (run jwt0 server0 trace20)) = [10, 20] \<and>
   length (received (emitted (run jwt0 server0 trace20)
      (step jwt0 (run jwt0 server0 trace20) (10, 8, Disconnect))) 20) = 1 \<and>
   filter (\<lambda>d. is_status_change (payload d)) (emitted server0 (step jwt0 server0 (30, 9, Disconnect))) = [] \<and>
   never_authenticates jwt0 server0 30 trace30 \<and>
   status_changes_of 30 (emitted server0 (run jwt0 server0 trace30)) = []"
proof -
  let ?s10 = "\<lparr>s_id = 10, userId = Some 1, s_user = Some \<lparr>u_status = Online, u_lastSeen = 0\<rparr>,
          rooms = {User_room 1, Chat_room 5}\<rparr>"
  let ?s20 = "\<lparr>s_id = 20, userId = None, s_user = None, rooms = {Chat_room 5}\<rparr>"
  let ?s30 = "\<lparr>s_id = 30, userId = None, s_user = None, rooms = {}\<rparr>"
  have socks: "sockets server0 = [?s10, ?s20, ?s30]"
    by (simp add: server0_def)
  have f10: "find (\<lambda>r. s_id r = 10) (sockets server0) = Some ?s10"
    and f20: "find (\<lambda>r. s_id r = 20) (sockets server0) = Some ?s20"
    and f30: "find (\<lambda>r. s_id r = 30) (sockets server0) = Some ?s30"
    by (simp_all add: socks)
  have tok: "jwt0 ''t2'' = Some 2" by (simp add: jwt0_def)
  have known: "db_users (store server0) 2 \<noteq> None" by (simp add: server0_def)
  have inv: "\<forall>r \<in> set (sockets server0). s_id r = 30 \<longrightarrow> userId r = None"
    by (simp add: socks)
  have never: "never_authenticates jwt0 server0 30 trace30"
    by (simp add: trace30_def auth_succeeds_def jwt0_def)
  have stay: "list_all (\<lambda>x. \<not> disconnects 10 x) trace20"
    by (simp add: trace20_def)
  have ids: "map s_id (sockets (run jwt0 server0 trace20)) = [10, 20]"
    by (simp add: run_def trace20_def step_def server0_def jwt0_def on_authenticate_def
          on_send_message_def on_leave_chat_def on_disconnect_def update_socket_def
          broadcast_emit_def to_room_emit_def emit_to_def User_findByIdAndUpdate_def Let_def)
  from presence_broadcasts [OF server0_wf, where jwt = jwt0 and sid = 20 and now = 7
      and xs = "[]" and ys = "[]"] f20 tok known
  have a: "\<forall>r \<in> set (sockets server0).
          received (emitted server0 (step jwt0 server0 (20, 7, Authenticate ''t2''))) (s_id r) =
            (if s_id r = 20 then [] else [User_status_change 2 Online])"
    by blast
  from presence_broadcasts [OF server0_wf, where jwt = jwt0 and sid = 10 and now = 8
      and xs = "[]" and ys = trace20] f10 stay
  have b: "\<forall>r \<in> set (sockets server0).
          received (emitted server0 (step jwt0 server0 (10, 8, Disconnect))) (s_id r) =
            (if s_id r = 10 then [] else [User_status_change 1 Offline])"
    and "\<exists>uid. \<forall>r \<in> set (sockets (run jwt0 server0 trace20)).
          received (emitted (run jwt0 server0 trace20)
            (step jwt0 (run jwt0 server0 trace20) (10, 8, Disconnect))) (s_id r) =
            (if s_id r = 10 then [] else [User_status_change uid Offline])"
    by simp_all
  then obtain uid where "\<forall>r \<in> set (sockets (run jwt0 server0 trace20)).
          received (emitted (run jwt0 server0 trace20)
            (step jwt0 (run jwt0 server0 trace20) (10, 8, Disconnect))) (s_id r) =
            (if s_id r = 10 then [] else [User_status_change uid Offline])"
    by blast
  moreover from ids have "20 \<in> s_id ` set (sockets (run jwt0 server0 trace20))"
    by (metis list.set_intros(1,2) list.set_map)
  ultimately have b': "length (received (emitted (run jwt0 server0 trace20)
      (step jwt0 (run jwt0 server0 trace20) (10, 8, Disconnect))) 20) = 1"
    by auto
  from presence_broadcasts [OF server0_wf, where jwt = jwt0 and sid = 30 and now = 9
      and xs = trace30 and ys = "[]"] f30 inv never
  have c: "filter (\<lambda>d. is_status_change (payload d)) (emitted server0 (step jwt0 server0 (30, 9, Disconnect))) = []"
    and e: "status_changes_of 30 (emitted server0 (run jwt0 server0 trace30)) = []"
    by auto
  from a b b' c e tok never stay ids server0_wf show ?thesis
    by (simp add: socks)
qed

section \<open>Events of an unauthenticated session\<close>




end
